theory Spec2Isabelle
  imports Complex_Main "HOL-Library.Word"
begin

section \<open>Messages, errors and channels\<close>

text \<open>
  The message-type constants are declared outside the three source files; the engine only
  compares them for equality, so they are the constructors of a datatype.
\<close>

datatype MessageType = AsyncRequestMessage | SyncRequestMessage | ResponseMessage | CloseMessage

type_synonym bytes = "8 word list"

type_synonym Duration = int

text \<open>
  One constructor per place where the engine makes an error value:
  \<^item> \<open>WebsocketError s\<close> is \<^verbatim>\<open>&WebsocketError{message: s}\<close>;
  \<^item> \<open>ConnectionIsClosed\<close> is \<^verbatim>\<open>errors.New("connection is closed")\<close> (connection.go:144);
  \<^item> \<open>RequestTimedOut d\<close> is \<^verbatim>\<open>"request timed out for %s"\<close> (connection.go:160);
  \<^item> \<open>ResponseTimedOut d\<close> is \<^verbatim>\<open>"response timed out for %s"\<close> (connection.go:178);
  \<^item> \<open>UnexpectedResponse\<close> is the error of connection.go:293;
  \<^item> \<open>OtherError s\<close> is any error value that is not a \<^verbatim>\<open>*WebsocketError\<close>
    (what \<^verbatim>\<open>Marshal\<close>, \<^verbatim>\<open>Unmarshal\<close> or \<^verbatim>\<open>ws.Close\<close> return).
\<close>

datatype error =
    WebsocketError string
  | ConnectionIsClosed
  | RequestTimedOut Duration
  | ResponseTimedOut Duration
  | UnexpectedResponse
  | OtherError string

fun is_WebsocketError :: "error \<Rightarrow> bool" where
  "is_WebsocketError (WebsocketError s) = True"
| "is_WebsocketError e = False"

record Message =
  MessageType :: MessageType
  MessageId :: string
  Payload :: bytes

text \<open>A \<^verbatim>\<open>chan *MessageResp\<close> is an address into the store of response channels.\<close>

type_synonym chan = nat

record MessageResp =
  resp_msg :: "Message option"
  resp_err :: "error option"

record MessageReq =
  req_msg :: Message
  respCh :: chan

record Config =
  Timeouts_Request :: Duration
  Timeouts_Response :: Duration
  RequestQueueSize :: nat

section \<open>The state of one connection and of its tasks\<close>

text \<open>
  What a call of \<^verbatim>\<open>sendMessage\<close> ends with: a normal return of the named results
  \<^verbatim>\<open>(respMsg, err)\<close>, or a panic that leaves the function (carrying the value
  \<^verbatim>\<open>respMsg\<close> had then).
\<close>

datatype outcome = Normal bytes "error option" | Panic bytes

datatype sender_pc =
    S_idle
  | S_select1 Message chan
  | S_select2 Message chan
  | S_done outcome

datatype writer_pc =
    W_recv
  | W_send MessageReq
  | W_reply MessageReq error
  | W_close
  | W_success MessageReq
  | W_closewait
  | W_sendclose
  | W_exit

datatype reader_pc =
    R_loop
  | R_read
  | R_got "error + Message"
  | R_found Message chan
  | R_deliver Message chan
  | R_handler Message
  | R_close
  | R_exit

datatype event =
    EvSetClosed
  | EvCloseWch
  | EvCloseRch
  | EvCloseSignal
  | EvUnregister
  | EvHandler "Message option" "error option"
  | EvPut string chan
  | EvDelete string
  | EvSlotSend chan MessageResp
  | EvTransport Message "error option"
  | EvUpdateRegistry

record WebSocketConnection =
  closeOnce :: bool
  closed_flag :: bool
  msgChans :: "string \<rightharpoonup> chan"
  wch :: "MessageReq list"
  wch_closed :: bool
  closewch :: "bool list"
  rch_closed :: bool
  lastPingedAt :: int
  chans :: "chan \<Rightarrow> MessageResp list"
  next_chan :: chan
  senders :: "nat \<Rightarrow> sender_pc"
  writer :: writer_pc
  reader :: reader_pc
  trace :: "event list"

text \<open>
  The fields up to \<open>lastPingedAt\<close> are those of the Go struct (\<open>closed_flag\<close> is
  \<^verbatim>\<open>closed\<close>; \<open>closeOnce\<close> is true once the \<^verbatim>\<open>sync.Once\<close> has run;
  a channel is its buffer and, where the code closes it, a flag). \<open>chans\<close> is the store of
  the response channels made by \<^verbatim>\<open>sendMessage\<close> (each of capacity 1), \<open>senders\<close>,
  \<open>writer\<close> and \<open>reader\<close> are the program counters of the calling tasks and of the two
  goroutines started by \<^verbatim>\<open>Start\<close>, and \<open>trace\<close> records the effects in the order
  in which they happen.
\<close>

definition new_conn :: "int \<Rightarrow> WebSocketConnection" where
  "new_conn t = \<lparr> closeOnce = False, closed_flag = False, msgChans = Map.empty, wch = [],
     wch_closed = False, closewch = [], rch_closed = False, lastPingedAt = t,
     chans = (\<lambda>_. []), next_chan = 0, senders = (\<lambda>_. S_idle), writer = W_recv,
     reader = R_loop, trace = [] \<rparr>"

subsection \<open>syncRespChanMap (connection.go:25-57)\<close>

definition put :: "string \<Rightarrow> chan \<Rightarrow> WebSocketConnection \<Rightarrow> WebSocketConnection" where
  "put msgId ch c = c\<lparr> msgChans := (msgChans c)(msgId \<mapsto> ch) \<rparr>"

definition find_chan :: "string \<Rightarrow> WebSocketConnection \<Rightarrow> chan option" where
  "find_chan msgId c = msgChans c msgId"

definition delete :: "string \<Rightarrow> WebSocketConnection \<Rightarrow> WebSocketConnection" where
  "delete msgId c = c\<lparr> msgChans := (msgChans c)(msgId := None) \<rparr>"

definition emit :: "event list \<Rightarrow> WebSocketConnection \<Rightarrow> WebSocketConnection" where
  "emit evs c = c\<lparr> trace := trace c @ evs \<rparr>"

text \<open>A send on a response channel (capacity 1) goes through when the buffer has room.\<close>

definition chan_send :: "chan \<Rightarrow> MessageResp \<Rightarrow> WebSocketConnection \<Rightarrow> WebSocketConnection option" where
  "chan_send ch r c =
     (if chans c ch = [] then
        Some (emit [EvSlotSend ch r] (c\<lparr> chans := (chans c)(ch := [r]) \<rparr>))
      else None)"

subsection \<open>Close (connection.go:302-310)\<close>

definition Close :: "WebSocketConnection \<Rightarrow> WebSocketConnection" where
  "Close c =
     (if closeOnce c then c
      else emit [EvSetClosed, EvCloseWch, EvCloseRch, EvCloseSignal, EvUnregister]
             (c\<lparr> closeOnce := True, closed_flag := True, wch_closed := True,
                 rch_closed := True, closewch := closewch c @ [True] \<rparr>))"

subsection \<open>The writer task: sendWsMessage and wListen (connection.go:190-240)\<close>

text \<open>
  What the transport and \<^verbatim>\<open>Message.Marshal\<close> answer during one call of
  \<^verbatim>\<open>sendWsMessage\<close>: for each call that can fail, the error text or nothing.
\<close>

record ws_write_env =
  SetWriteDeadline_err :: "string option"
  Marshal_err :: "string option"
  WriteMessage_err :: "string option"
  wsClose_err :: "string option"

definition sendWsMessage :: "ws_write_env \<Rightarrow> Message \<Rightarrow> error option" where
  "sendWsMessage env m =
     (case SetWriteDeadline_err env of
        Some e \<Rightarrow> Some (WebsocketError (''error setting write deadline, '' @ e))
      | None \<Rightarrow>
          if MessageType m = CloseMessage then map_option OtherError (wsClose_err env)
          else (case Marshal_err env of
                  Some e \<Rightarrow> Some (OtherError e)
                | None \<Rightarrow> map_option WebsocketError (WriteMessage_err env)))"

definition wListen_step :: "ws_write_env \<Rightarrow> WebSocketConnection \<Rightarrow> WebSocketConnection option" where
  "wListen_step env c =
     (case writer c of
        W_recv \<Rightarrow>
          (case wch c of
             req # rest \<Rightarrow> Some (c\<lparr> wch := rest, writer := W_send req \<rparr>)
           | [] \<Rightarrow> if wch_closed c then Some (c\<lparr> writer := W_closewait \<rparr>) else None)
      | W_send req \<Rightarrow>
          (let e = sendWsMessage env (req_msg req)
           in Some ((emit [EvTransport (req_msg req) e] c)
                \<lparr> writer := (case e of Some er \<Rightarrow> W_reply req er | None \<Rightarrow> W_success req) \<rparr>))
      | W_reply req er \<Rightarrow>
          (case chan_send (respCh req) \<lparr> resp_msg = None, resp_err = Some er \<rparr> c of
             None \<Rightarrow> None
           | Some c1 \<Rightarrow> Some (c1\<lparr> writer := (if is_WebsocketError er then W_close else W_recv) \<rparr>))
      | W_close \<Rightarrow> Some ((Close c)\<lparr> writer := W_recv \<rparr>)
      | W_success req \<Rightarrow>
          (if MessageType (req_msg req) = SyncRequestMessage then
             Some ((emit [EvPut (MessageId (req_msg req)) (respCh req)]
                      (put (MessageId (req_msg req)) (respCh req) c))\<lparr> writer := W_recv \<rparr>)
           else
             (case chan_send (respCh req) \<lparr> resp_msg = None, resp_err = None \<rparr> c of
                None \<Rightarrow> None
              | Some c1 \<Rightarrow> Some (c1\<lparr> writer := W_recv \<rparr>)))
      | W_closewait \<Rightarrow>
          (case closewch c of
             [] \<Rightarrow> None
           | b # bs \<Rightarrow> Some (c\<lparr> closewch := bs, writer := W_sendclose \<rparr>))
      | W_sendclose \<Rightarrow>
          (let m = \<lparr> MessageType = CloseMessage, MessageId = [], Payload = [] \<rparr>
           in Some ((emit [EvTransport m (sendWsMessage env m)] c)\<lparr> writer := W_exit \<rparr>))
      | W_exit \<Rightarrow> None)"

subsection \<open>The reader task: readWsMessage and rListen (connection.go:242-300)\<close>

text \<open>
  What the transport and \<^verbatim>\<open>Unmarshal\<close> answer during one call of
  \<^verbatim>\<open>readWsMessage\<close>, and the clock reading of line 256.
\<close>

record ws_read_env =
  SetReadDeadline_err :: "string option"
  ReadMessage_err :: "string option"
  ReadMessage_isClose :: bool
  Unmarshal_result :: "string + Message"
  read_now :: int

definition readWsMessage ::
  "ws_read_env \<Rightarrow> WebSocketConnection \<Rightarrow> WebSocketConnection \<times> (error + Message)" where
  "readWsMessage env c =
     (case SetReadDeadline_err env of
        Some e \<Rightarrow> (c, Inl (WebsocketError (''error setting read deadline, '' @ e)))
      | None \<Rightarrow>
          (case ReadMessage_err env of
             Some e \<Rightarrow> (c, Inl (WebsocketError (''error reading message, '' @ e)))
           | None \<Rightarrow>
               (let c1 = emit [EvUpdateRegistry] (c\<lparr> lastPingedAt := read_now env \<rparr>)
                in if ReadMessage_isClose env then
                     (c1, Inr \<lparr> MessageType = CloseMessage, MessageId = [], Payload = [] \<rparr>)
                   else
                     (c1, case Unmarshal_result env of
                            Inl e \<Rightarrow> Inl (OtherError e)
                          | Inr m \<Rightarrow> Inr m))))"

definition rListen_step :: "ws_read_env \<Rightarrow> WebSocketConnection \<Rightarrow> WebSocketConnection option" where
  "rListen_step env c =
     (case reader c of
        R_loop \<Rightarrow> Some (c\<lparr> reader := (if rch_closed c then R_exit else R_read) \<rparr>)
      | R_read \<Rightarrow>
          (case readWsMessage env c of (c1, r) \<Rightarrow> Some (c1\<lparr> reader := R_got r \<rparr>))
      | R_got r \<Rightarrow>
          (case r of
             Inl e \<Rightarrow>
               Some ((emit [EvHandler None (Some e)] c)
                  \<lparr> reader := (if is_WebsocketError e then R_close else R_loop) \<rparr>)
           | Inr m \<Rightarrow>
               if MessageType m = CloseMessage then
                 Some ((emit [EvHandler (Some m) None] c)\<lparr> reader := R_close \<rparr>)
               else if MessageType m = ResponseMessage then
                 (case find_chan (MessageId m) c of
                    Some ch \<Rightarrow> Some (c\<lparr> reader := R_found m ch \<rparr>)
                  | None \<Rightarrow>
                      Some ((emit [EvHandler (Some m) (Some UnexpectedResponse)] c)
                         \<lparr> reader := R_loop \<rparr>))
               else Some ((emit [EvHandler (Some m) None] c)\<lparr> reader := R_loop \<rparr>))
      | R_found m ch \<Rightarrow>
          Some ((emit [EvDelete (MessageId m)] (delete (MessageId m) c))
             \<lparr> reader := R_deliver m ch \<rparr>)
      | R_deliver m ch \<Rightarrow>
          (case chan_send ch \<lparr> resp_msg = Some m, resp_err = None \<rparr> c of
             None \<Rightarrow> None
           | Some c1 \<Rightarrow> Some (c1\<lparr> reader := R_handler m \<rparr>))
      | R_handler m \<Rightarrow> Some ((emit [EvHandler (Some m) None] c)\<lparr> reader := R_loop \<rparr>)
      | R_close \<Rightarrow> Some ((Close c)\<lparr> reader := R_exit \<rparr>)
      | R_exit \<Rightarrow> None)"

subsection \<open>Message ids: strconv.FormatInt(time.Now().UnixNano(), 16) (connection.go:148)\<close>

definition hexchar :: "nat \<Rightarrow> char" where
  "hexchar d = ''0123456789abcdef'' ! d"

function hexdigits :: "nat \<Rightarrow> string" where
  "hexdigits n = (if n < 16 then [hexchar n] else hexdigits (n div 16) @ [hexchar (n mod 16)])"
  by pat_completeness auto
termination
  by (relation "measure id") auto

definition FormatInt16 :: "int \<Rightarrow> string" where
  "FormatInt16 i = (if i < 0 then CHR ''-'' # hexdigits (nat (- i)) else hexdigits (nat i))"

subsection \<open>The calling tasks: sendMessage (connection.go:139-188)\<close>

text \<open>
  A \<^verbatim>\<open>select\<close> between a timer and a communication. \<open>comm_ready\<close>: the send or
  receive can proceed now; \<open>expired\<close>: the timer of \<^verbatim>\<open>time.After\<close> has fired by
  the time the cases are polled; \<open>pick\<close>: the choice Go makes at random when both are
  ready (true for the timer). With neither ready the task stays blocked.
\<close>

datatype select_case = TimerCase | CommCase

definition select_poll :: "bool \<Rightarrow> bool \<Rightarrow> bool \<Rightarrow> select_case option" where
  "select_poll comm_ready expired pick =
     (if comm_ready \<and> expired then Some (if pick then TimerCase else CommCase)
      else if comm_ready then Some CommCase
      else if expired then Some TimerCase
      else None)"

text \<open>
  A send on the writer inbox \<^verbatim>\<open>wch\<close> can proceed when its buffer has room, or (an
  inbox of capacity 0) when the writer waits in its receive with nothing in flight.
\<close>

definition can_send :: "Config \<Rightarrow> WebSocketConnection \<Rightarrow> bool" where
  "can_send cfg c \<longleftrightarrow>
     length (wch c) < RequestQueueSize cfg \<or> (wch c = [] \<and> writer c = W_recv)"

text \<open>The deferred function of lines 142-146: a panic is recovered and becomes an error.\<close>

fun deferred_recover :: "outcome \<Rightarrow> outcome" where
  "deferred_recover (Panic respMsg) = Normal respMsg (Some ConnectionIsClosed)"
| "deferred_recover (Normal respMsg e) = Normal respMsg e"

text \<open>The deferred function of lines 169-171, registered for a synchronous request only.\<close>

definition deferred_delete :: "Message \<Rightarrow> WebSocketConnection \<Rightarrow> WebSocketConnection" where
  "deferred_delete m c =
     (if MessageType m = SyncRequestMessage then
        emit [EvDelete (MessageId m)] (delete (MessageId m) c)
      else c)"

definition return_from :: "nat \<Rightarrow> outcome \<Rightarrow> WebSocketConnection \<Rightarrow> WebSocketConnection" where
  "return_from tid r c = c\<lparr> senders := (senders c)(tid := S_done (deferred_recover r)) \<rparr>"

text \<open>Lines 140-157: the message with its id from the clock, and a fresh response channel.\<close>

definition sendMessage_call ::
  "nat \<Rightarrow> MessageType \<Rightarrow> bytes \<Rightarrow> int \<Rightarrow> WebSocketConnection \<Rightarrow> WebSocketConnection option" where
  "sendMessage_call tid messageType payload now c =
     (case senders c tid of
        S_idle \<Rightarrow>
          (let m = \<lparr> MessageType = messageType, MessageId = FormatInt16 now, Payload = payload \<rparr>;
               ch = next_chan c
           in Some (c\<lparr> chans := (chans c)(ch := []), next_chan := Suc ch,
                       senders := (senders c)(tid := S_select1 m ch) \<rparr>))
      | _ \<Rightarrow> None)"

text \<open>Lines 158-166: the enqueue, against the deadline \<^verbatim>\<open>Timeouts.Request\<close>.\<close>

definition sendMessage_select1 ::
  "Config \<Rightarrow> nat \<Rightarrow> bool \<Rightarrow> bool \<Rightarrow> WebSocketConnection \<Rightarrow> WebSocketConnection option" where
  "sendMessage_select1 cfg tid expired pick c =
     (case senders c tid of
        S_select1 m ch \<Rightarrow>
          (case select_poll (wch_closed c \<or> can_send cfg c) expired pick of
             None \<Rightarrow> None
           | Some TimerCase \<Rightarrow>
               Some (return_from tid (Normal [] (Some (RequestTimedOut (Timeouts_Request cfg)))) c)
           | Some CommCase \<Rightarrow>
               if wch_closed c then Some (return_from tid (Panic []) c)
               else Some (c\<lparr> wch := wch c @ [\<lparr> req_msg = m, respCh = ch \<rparr>],
                              senders := (senders c)(tid := S_select2 m ch) \<rparr>))
      | _ \<Rightarrow> None)"

text \<open>Lines 168-186: the wait on the response channel, and the deferred delete.\<close>

definition sendMessage_select2 ::
  "Config \<Rightarrow> nat \<Rightarrow> bool \<Rightarrow> bool \<Rightarrow> WebSocketConnection \<Rightarrow> WebSocketConnection option" where
  "sendMessage_select2 cfg tid expired pick c =
     (case senders c tid of
        S_select2 m ch \<Rightarrow>
          (let timeout = (if MessageType m = SyncRequestMessage then Timeouts_Response cfg
                          else Timeouts_Request cfg)
           in case select_poll (chans c ch \<noteq> []) expired pick of
                None \<Rightarrow> None
              | Some TimerCase \<Rightarrow>
                  Some (return_from tid (Normal [] (Some (ResponseTimedOut timeout)))
                          (deferred_delete m c))
              | Some CommCase \<Rightarrow>
                  (let resp = hd (chans c ch);
                       respMsg = (case resp_msg resp of Some rm \<Rightarrow> Payload rm | None \<Rightarrow> [])
                   in Some (return_from tid (Normal respMsg (resp_err resp))
                              (deferred_delete m (c\<lparr> chans := (chans c)(ch := tl (chans c ch)) \<rparr>)))))
      | _ \<Rightarrow> None)"

subsection \<open>The tasks of one connection, interleaved\<close>

datatype sender_action = Call MessageType bytes int | Select1 bool bool | Select2 bool bool

datatype action =
    Sender nat sender_action
  | Writer ws_write_env
  | Reader ws_read_env
  | CloseCall

fun step :: "Config \<Rightarrow> action \<Rightarrow> WebSocketConnection \<Rightarrow> WebSocketConnection option" where
  "step cfg (Sender tid (Call messageType payload now)) c = sendMessage_call tid messageType payload now c"
| "step cfg (Sender tid (Select1 expired pick)) c = sendMessage_select1 cfg tid expired pick c"
| "step cfg (Sender tid (Select2 expired pick)) c = sendMessage_select2 cfg tid expired pick c"
| "step cfg (Writer env) c = wListen_step env c"
| "step cfg (Reader env) c = rListen_step env c"
| "step cfg CloseCall c = Some (Close c)"

fun run :: "Config \<Rightarrow> action list \<Rightarrow> WebSocketConnection \<Rightarrow> WebSocketConnection option" where
  "run cfg [] c = Some c"
| "run cfg (a # as) c = (case step cfg a c of None \<Rightarrow> None | Some c1 \<Rightarrow> run cfg as c1)"

subsection \<open>The side effects of Close in a trace\<close>

definition close_effects :: "event list" where
  "close_effects = [EvSetClosed, EvCloseWch, EvCloseRch, EvCloseSignal, EvUnregister]"

fun is_close_effect :: "event \<Rightarrow> bool" where
  "is_close_effect EvSetClosed = True"
| "is_close_effect EvCloseWch = True"
| "is_close_effect EvCloseRch = True"
| "is_close_effect EvCloseSignal = True"
| "is_close_effect EvUnregister = True"
| "is_close_effect e = False"

definition close_inv :: "WebSocketConnection \<Rightarrow> bool" where
  "close_inv c \<longleftrightarrow> filter is_close_effect (trace c) = (if closeOnce c then close_effects else [])"

subsection \<open>The response channel a calling task holds\<close>

fun sender_chan :: "sender_pc \<Rightarrow> chan option" where
  "sender_chan (S_select1 m ch) = Some ch"
| "sender_chan (S_select2 m ch) = Some ch"
| "sender_chan s = None"

definition callers_inv :: "WebSocketConnection \<Rightarrow> bool" where
  "callers_inv c \<longleftrightarrow>
     (\<forall>i ch. sender_chan (senders c i) = Some ch \<longrightarrow> ch < next_chan c) \<and>
     (\<forall>i j ch. sender_chan (senders c i) = Some ch \<and> sender_chan (senders c j) = Some ch \<longrightarrow> i = j)"

subsection \<open>The response channels on their way to an answer\<close>

fun writer_chan :: "writer_pc \<Rightarrow> chan option" where
  "writer_chan (W_send req) = Some (respCh req)"
| "writer_chan (W_reply req e) = Some (respCh req)"
| "writer_chan (W_success req) = Some (respCh req)"
| "writer_chan w = None"

text \<open>
  The channels that will be sent on once: the one the reader is about to answer, the one
  of the request the writer works on, those of the requests in the inbox.
\<close>

definition transit :: "WebSocketConnection \<Rightarrow> chan list" where
  "transit c =
     (case reader c of R_deliver m ch \<Rightarrow> [ch] | _ \<Rightarrow> []) @
     (case writer_chan (writer c) of Some ch \<Rightarrow> [ch] | None \<Rightarrow> []) @
     map respCh (wch c)"

definition found :: "WebSocketConnection \<Rightarrow> (string \<times> chan) option" where
  "found c = (case reader c of R_found m ch \<Rightarrow> Some (MessageId m, ch) | _ \<Rightarrow> None)"

definition sel1 :: "WebSocketConnection \<Rightarrow> (nat \<times> chan) set" where
  "sel1 c = {(i, ch). \<exists>m. senders c i = S_select1 m ch}"

definition slots_ok ::
  "chan list \<Rightarrow> (string \<rightharpoonup> chan) \<Rightarrow> (string \<times> chan) option \<Rightarrow> (nat \<times> chan) set
     \<Rightarrow> (chan \<Rightarrow> 'r list) \<Rightarrow> chan \<Rightarrow> bool" where
  "slots_ok T P F S C N \<longleftrightarrow>
     distinct T \<and>
     (\<forall>ch. ch \<in> set T \<longrightarrow> ch < N \<and> C ch = [] \<and> (\<forall>k. P k \<noteq> Some ch)) \<and>
     (\<forall>k ch. P k = Some ch \<longrightarrow> ch < N \<and> C ch = []) \<and>
     (\<forall>k k' ch. P k = Some ch \<and> P k' = Some ch \<longrightarrow> k = k') \<and>
     (\<forall>k ch. F = Some (k, ch) \<longrightarrow>
        ch < N \<and> C ch = [] \<and> ch \<notin> set T \<and> (\<forall>k'. P k' = Some ch \<longrightarrow> k' = k)) \<and>
     (\<forall>i ch. (i, ch) \<in> S \<longrightarrow>
        ch < N \<and> C ch = [] \<and> ch \<notin> set T \<and> (\<forall>k. P k \<noteq> Some ch) \<and> (\<forall>k. F \<noteq> Some (k, ch))) \<and>
     (\<forall>i j ch. (i, ch) \<in> S \<and> (j, ch) \<in> S \<longrightarrow> i = j)"

definition slots_inv :: "WebSocketConnection \<Rightarrow> bool" where
  "slots_inv c \<longleftrightarrow>
     slots_ok (transit c) (msgChans c) (found c) (sel1 c) (chans c) (next_chan c)"

subsection \<open>Concrete inputs\<close>

definition cfg0 :: Config where
  "cfg0 = \<lparr> Timeouts_Request = 1000, Timeouts_Response = 100, RequestQueueSize = 1 \<rparr>"

definition env_ok :: ws_write_env where
  "env_ok = \<lparr> SetWriteDeadline_err = None, Marshal_err = None, WriteMessage_err = None,
              wsClose_err = None \<rparr>"

definition env_broken :: ws_write_env where
  "env_broken = \<lparr> SetWriteDeadline_err = None, Marshal_err = None,
              WriteMessage_err = Some ''broken pipe'', wsClose_err = None \<rparr>"

definition env_resp :: "Message \<Rightarrow> ws_read_env" where
  "env_resp m = \<lparr> SetReadDeadline_err = None, ReadMessage_err = None,
              ReadMessage_isClose = False, Unmarshal_result = Inr m, read_now = 7 \<rparr>"

definition resp1a :: Message where
  "resp1a = \<lparr> MessageType = ResponseMessage, MessageId = ''1a'', Payload = [1, 2] \<rparr>"

subsection \<open>Reading a message id back\<close>

definition hexdigit_val :: "char \<Rightarrow> nat" where
  "hexdigit_val ch = length (takeWhile (\<lambda>x. x \<noteq> ch) ''0123456789abcdef'')"

definition hexval :: "string \<Rightarrow> nat" where
  "hexval s = foldl (\<lambda>a ch. 16 * a + hexdigit_val ch) 0 s"

subsection \<open>What holds of the closing flags and of the calls' results\<close>

definition closed_inv :: "WebSocketConnection \<Rightarrow> bool" where
  "closed_inv c \<longleftrightarrow>
     closed_flag c = closeOnce c \<and> wch_closed c = closeOnce c \<and> rch_closed c = closeOnce c"

definition no_panic :: "WebSocketConnection \<Rightarrow> bool" where
  "no_panic c \<longleftrightarrow> (\<forall>i r. senders c i \<noteq> S_done (Panic r))"

definition sync1a :: Message where
  "sync1a = \<lparr> MessageType = SyncRequestMessage, MessageId = ''1a'', Payload = [] \<rparr>"

definition async1a :: Message where
  "async1a = \<lparr> MessageType = AsyncRequestMessage, MessageId = ''1a'', Payload = [] \<rparr>"

section \<open>The connection manager (connection_manager.go)\<close>

text \<open>A connection is known to the manager by its address.\<close>

type_synonym conn_ptr = nat

datatype manager_error = closedWscmErr | RegistryError string | DivideByZero

text \<open>
  Modelled from the spec: the shard, whose source file is not among the three (section 4.4
  of the specification). \<^verbatim>\<open>register\<close> puts the connection under its identifier, in
  the place of a connection already there, which is closed out of band and returned here as
  the evicted one, and then reports what the registry's update answered; \<^verbatim>\<open>find\<close>
  is a lookup; \<^verbatim>\<open>unregister\<close> removes the entry only if it still holds this connection;
  \<^verbatim>\<open>close\<close> empties the map.
\<close>

record shard =
  wsconns :: "string \<rightharpoonup> conn_ptr"

definition shard_register ::
  "conn_ptr \<Rightarrow> string \<Rightarrow> string option \<Rightarrow> shard \<Rightarrow> shard \<times> conn_ptr option \<times> string option" where
  "shard_register conn ident registry_err s =
     (s\<lparr> wsconns := (wsconns s)(ident \<mapsto> conn) \<rparr>, wsconns s ident, registry_err)"

definition shard_findConnection :: "string \<Rightarrow> shard \<Rightarrow> conn_ptr option" where
  "shard_findConnection ident s = wsconns s ident"

definition shard_unregister :: "conn_ptr \<Rightarrow> string \<Rightarrow> shard \<Rightarrow> shard" where
  "shard_unregister conn ident s =
     (if wsconns s ident = Some conn then s\<lparr> wsconns := (wsconns s)(ident := None) \<rparr> else s)"

definition shard_Close :: "shard \<Rightarrow> shard" where
  "shard_Close s = s\<lparr> wsconns := Map.empty \<rparr>"

record WebSocketConnectionManager =
  wscm_closed :: bool
  shards :: "shard list"

text \<open>Lines 71-92, for a registry that answers the ping; \<open>n\<close> is \<^verbatim>\<open>NShards\<close>.\<close>

definition newWebSocketConnectionManager :: "nat \<Rightarrow> WebSocketConnectionManager" where
  "newWebSocketConnectionManager n =
     \<lparr> wscm_closed = False, shards = replicate n \<lparr> wsconns = Map.empty \<rparr> \<rparr>"

text \<open>
  Lines 115-169. \<open>hash32\<close> is the vendored
  \<^verbatim>\<open>murmur3.New32\<close> applied to the bytes of the identifier, \<open>conn\<close> the address of
  the connection made at line 126, \<open>registry_err\<close> what the registry answers to the
  shard's update. The remainder \<^verbatim>\<open>%\<close> is taken in \<^verbatim>\<open>uint32\<close> and panics on a
  zero divisor. When the registration fails the connection is closed, which unregisters
  it (line 161 and \<^verbatim>\<open>Close\<close>).
\<close>

definition newConnection ::
  "(string \<Rightarrow> 32 word) \<Rightarrow> string \<Rightarrow> conn_ptr \<Rightarrow> string option \<Rightarrow> WebSocketConnectionManager
     \<Rightarrow> WebSocketConnectionManager \<times> (manager_error + conn_ptr)" where
  "newConnection hash32 ident conn registry_err wscm =
     (if wscm_closed wscm then (wscm, Inl closedWscmErr)
      else
        (let n = (word_of_nat (length (shards wscm)) :: 32 word)
         in if n = 0 then (wscm, Inl DivideByZero)
            else
              (let i = unat (hash32 ident mod n)
               in case shard_register conn ident registry_err (shards wscm ! i) of
                    (s1, evicted, Some e) \<Rightarrow>
                      (wscm\<lparr> shards := (shards wscm)[i := shard_unregister conn ident s1] \<rparr>,
                       Inl (RegistryError e))
                  | (s1, evicted, None) \<Rightarrow>
                      (wscm\<lparr> shards := (shards wscm)[i := s1] \<rparr>, Inr conn))))"

text \<open>Lines 171-176.\<close>

definition findConnection ::
  "(string \<Rightarrow> 32 word) \<Rightarrow> string \<Rightarrow> WebSocketConnectionManager \<Rightarrow> manager_error + conn_ptr option" where
  "findConnection hash32 ident wscm =
     (let n = (word_of_nat (length (shards wscm)) :: 32 word)
      in if n = 0 then Inl DivideByZero
         else Inr (shard_findConnection ident (shards wscm ! unat (hash32 ident mod n))))"

text \<open>Lines 100-113: the manager's close.\<close>

definition wscm_close :: "WebSocketConnectionManager \<Rightarrow> WebSocketConnectionManager" where
  "wscm_close wscm = wscm\<lparr> wscm_closed := True, shards := map shard_Close (shards wscm) \<rparr>"

text \<open>
  What happens to a manager over its life: connections are made, connections are closed
  (a connection unregisters from the shard it was given at line 127), the manager closes.
\<close>

datatype manager_op =
    NewConnection string conn_ptr "string option"
  | ConnClose string conn_ptr
  | ManagerClose

fun manager_step ::
  "(string \<Rightarrow> 32 word) \<Rightarrow> manager_op \<Rightarrow> WebSocketConnectionManager \<Rightarrow> WebSocketConnectionManager" where
  "manager_step hash32 (NewConnection ident conn registry_err) wscm =
     fst (newConnection hash32 ident conn registry_err wscm)"
| "manager_step hash32 (ConnClose ident conn) wscm =
     (let n = (word_of_nat (length (shards wscm)) :: 32 word)
      in if n = 0 then wscm
         else wscm\<lparr> shards := (shards wscm)
                [unat (hash32 ident mod n) :=
                   shard_unregister conn ident (shards wscm ! unat (hash32 ident mod n))] \<rparr>)"
| "manager_step hash32 ManagerClose wscm = wscm_close wscm"

definition manager_run ::
  "(string \<Rightarrow> 32 word) \<Rightarrow> manager_op list \<Rightarrow> WebSocketConnectionManager \<Rightarrow> WebSocketConnectionManager" where
  "manager_run hash32 ops wscm = foldl (\<lambda>w op. manager_step hash32 op w) wscm ops"

definition shards_inv :: "(string \<Rightarrow> 32 word) \<Rightarrow> WebSocketConnectionManager \<Rightarrow> bool" where
  "shards_inv hash32 wscm \<longleftrightarrow>
     (\<forall>k ident conn. k < length (shards wscm) \<and> wsconns (shards wscm ! k) ident = Some conn
        \<longrightarrow> k = unat (hash32 ident) mod length (shards wscm))"

text \<open>A hash function to run the manager on: the length of the identifier.\<close>

definition hash_len :: "string \<Rightarrow> 32 word" where
  "hash_len s = word_of_nat (length s)"

section \<open>The connection status and its JSON form (models/connection_status.go)\<close>

text \<open>
  A \<^verbatim>\<open>time.Time\<close> as the time package reads it: seconds since January 1 of year 1 and
  nanoseconds within the second. The zero time has both zero; \<^verbatim>\<open>UnixNano\<close> counts from
  1970 in \<^verbatim>\<open>int64\<close>; \<^verbatim>\<open>time.Unix\<close> builds a time from seconds and nanoseconds
  since 1970.
\<close>

record Time =
  sec :: int
  nsec :: int

definition IsZero :: "Time \<Rightarrow> bool" where
  "IsZero t \<longleftrightarrow> sec t = 0 \<and> nsec t = 0"

definition int64 :: "int \<Rightarrow> int" where
  "int64 x = sint (word_of_int x :: 64 word)"

definition UnixNano :: "Time \<Rightarrow> int" where
  "UnixNano t = int64 ((sec t - 62135596800) * 1000000000 + nsec t)"

definition time_Unix :: "int \<Rightarrow> int \<Rightarrow> Time" where
  "time_Unix s n = \<lparr> sec = s + n div 1000000000 + 62135596800, nsec = n mod 1000000000 \<rparr>"

text \<open>
  Modelled from the spec: \<^verbatim>\<open>NanoToMilli\<close> of the package utils, which is not among the
  source files. The specification has timestamps and durations in milliseconds: the
  nanoseconds divided by \<open>10\<^sup>6\<close>, by Go's integer division (towards zero).
\<close>

definition NanoToMilli :: "int \<Rightarrow> int" where
  "NanoToMilli n = sgn n * (\<bar>n\<bar> div 1000000)"

record ConnectionHistory =
  Ip :: string
  RequestId :: string
  Activity :: string
  Timestamp :: Time
  History_ConnectionType :: string
  History_Duration :: int

text \<open>What the map \<^verbatim>\<open>j\<close> of \<^verbatim>\<open>MarshalJSON\<close> holds under a key.\<close>

datatype jvalue = JString string | JInt int | JHistories "ConnectionHistory list"

record ConnectionStatus =
  ChannelName :: string
  Status :: string
  ConnectedAt :: Time
  DisconnectedAt :: Time
  ConnectionType :: string
  Duration :: int
  LastPingedAt :: Time
  Identifier :: string
  Metadata :: "string \<rightharpoonup> string"
  Histories :: "ConnectionHistory list"

text \<open>
  Lines 28-75; \<open>set_if b k v\<close> is \<^verbatim>\<open>if b { j[k] = v }\<close>. The result is the map \<^verbatim>\<open>j\<close> handed to \<^verbatim>\<open>json.Marshal\<close>, which
  writes one member per key of the map: the keys of the JSON object are the keys of \<open>j\<close>.
  A nil map and a nil slice are the empty ones.
\<close>

definition set_if :: "bool \<Rightarrow> string \<Rightarrow> jvalue \<Rightarrow> (string \<rightharpoonup> jvalue) \<Rightarrow> (string \<rightharpoonup> jvalue)" where
  "set_if b k v j = (if b then j(k \<mapsto> v) else j)"

definition ConnectionStatus_MarshalJSON :: "ConnectionStatus \<Rightarrow> (string \<rightharpoonup> jvalue)" where
  "ConnectionStatus_MarshalJSON h =
     (let j = Map.empty;
          j = set_if (length (ChannelName h) > 0) ''channel_name'' (JString (ChannelName h)) j;
          j = set_if (length (Status h) > 0) ''status'' (JString (Status h)) j;
          j = set_if (\<not> IsZero (ConnectedAt h))
                ''connected_at'' (JInt (NanoToMilli (UnixNano (ConnectedAt h)))) j;
          j = set_if (\<not> IsZero (DisconnectedAt h))
                ''disconnected_at'' (JInt (NanoToMilli (UnixNano (DisconnectedAt h)))) j;
          j = set_if (length (ConnectionType h) > 0)
                ''connection_type'' (JString (ConnectionType h)) j;
          j = set_if (Duration h > 0) ''duration'' (JInt (NanoToMilli (Duration h))) j;
          j = set_if (\<not> IsZero (LastPingedAt h))
                ''last_pinged_at'' (JInt (NanoToMilli (UnixNano (LastPingedAt h)))) j;
          j = set_if (length (Identifier h) > 0) ''device_id'' (JString (Identifier h)) j;
          j = (if Metadata h \<noteq> Map.empty then j ++ (map_option JString \<circ> Metadata h) else j);
          j = set_if (Histories h \<noteq> []) ''connection_history'' (JHistories (Histories h)) j
      in j)"

text \<open>
  The snapshot as the specification words it: a key for each field that is not zero, times
  and durations in milliseconds.
\<close>

definition status_entry :: "ConnectionStatus \<Rightarrow> string \<Rightarrow> jvalue option" where
  "status_entry h k =
     (if k = ''channel_name'' then (if ChannelName h = [] then None else Some (JString (ChannelName h)))
      else if k = ''status'' then (if Status h = [] then None else Some (JString (Status h)))
      else if k = ''connected_at'' then
        (if IsZero (ConnectedAt h) then None else Some (JInt (NanoToMilli (UnixNano (ConnectedAt h)))))
      else if k = ''disconnected_at'' then
        (if IsZero (DisconnectedAt h) then None
         else Some (JInt (NanoToMilli (UnixNano (DisconnectedAt h)))))
      else if k = ''connection_type'' then
        (if ConnectionType h = [] then None else Some (JString (ConnectionType h)))
      else if k = ''duration'' then
        (if 0 < Duration h then Some (JInt (NanoToMilli (Duration h))) else None)
      else if k = ''last_pinged_at'' then
        (if IsZero (LastPingedAt h) then None
         else Some (JInt (NanoToMilli (UnixNano (LastPingedAt h)))))
      else if k = ''device_id'' then (if Identifier h = [] then None else Some (JString (Identifier h)))
      else if k = ''connection_history'' then
        (if Histories h = [] then None else Some (JHistories (Histories h)))
      else None)"

definition zero_status :: ConnectionStatus where
  "zero_status = \<lparr> ChannelName = [], Status = [], ConnectedAt = \<lparr> sec = 0, nsec = 0 \<rparr>,
     DisconnectedAt = \<lparr> sec = 0, nsec = 0 \<rparr>, ConnectionType = [], Duration = 0,
     LastPingedAt = \<lparr> sec = 0, nsec = 0 \<rparr>, Identifier = [], Metadata = Map.empty,
     Histories = [] \<rparr>"

subsection \<open>ConnectionHistory.UnmarshalJSON (lines 115-149)\<close>

text \<open>
  The values \<^verbatim>\<open>json.Unmarshal\<close> stores in a \<^verbatim>\<open>map[string]interface{}\<close>: nil, a
  bool, a float64, a string, a slice or a map.
\<close>

datatype json =
    JNull
  | JBool bool
  | JNumber real
  | JStr string
  | JArr "json list"
  | JObj "(string \<times> json) list"

text \<open>The type assertions \<^verbatim>\<open>x.(string)\<close> and \<^verbatim>\<open>x.(float64)\<close>: no value, a panic.\<close>

fun assert_string :: "json \<Rightarrow> string option" where
  "assert_string (JStr s) = Some s"
| "assert_string x = None"

fun assert_float64 :: "json \<Rightarrow> real option" where
  "assert_float64 (JNumber r) = Some r"
| "assert_float64 x = None"

text \<open>
  The conversion \<^verbatim>\<open>int64(f)\<close> of a float64: towards zero when the result is in the
  range of int64. Outside that range Go leaves the value to the implementation; it is the
  one of amd64 here, the smallest int64.
\<close>

definition int64_of_float64 :: "real \<Rightarrow> int" where
  "int64_of_float64 r =
     (let z = (if 0 \<le> r then \<lfloor>r\<rfloor> else \<lceil>r\<rceil>)
      in if - (2 ^ 63) \<le> z \<and> z < 2 ^ 63 then z else - (2 ^ 63))"

datatype 'a result = Ok 'a | Err string | RuntimePanic

text \<open>One \<^verbatim>\<open>if v, found := j[k]; found { ... v.(T) ... }\<close>: no value when the assertion panics.\<close>

definition field ::
  "(string \<rightharpoonup> json) \<Rightarrow> string \<Rightarrow> (json \<Rightarrow> 'v option) \<Rightarrow> ('v \<Rightarrow> 'h \<Rightarrow> 'h) \<Rightarrow> 'h \<Rightarrow> 'h option" where
  "field j k assert upd h =
     (case j k of
        None \<Rightarrow> Some h
      | Some x \<Rightarrow> (case assert x of None \<Rightarrow> None | Some v \<Rightarrow> Some (upd v h)))"

text \<open>
  The six blocks of lines 122-146 in their order (\<open>decode_fields\<close>), each on the
  record the one before has filled; a panic of one ends them. \<open>decoded\<close> is what \<^verbatim>\<open>json.Unmarshal(data, &j)\<close> gives: its error, or the map it has
  filled from the JSON object. \<open>MilliSecToSec\<close> and \<open>MilliSecToNano\<close> are the functions
  of the package utils, which is not among the source files.
\<close>

definition decode_fields ::
  "(int \<Rightarrow> int) \<Rightarrow> (int \<Rightarrow> int) \<Rightarrow> (string \<rightharpoonup> json) \<Rightarrow> ConnectionHistory
     \<Rightarrow> ConnectionHistory option" where
  "decode_fields MilliSecToSec MilliSecToNano j h =
     Option.bind (field j ''ip'' assert_string (\<lambda>v h. h\<lparr> Ip := v \<rparr>) h) (\<lambda>h.
     Option.bind (field j ''request_id'' assert_string (\<lambda>v h. h\<lparr> RequestId := v \<rparr>) h) (\<lambda>h.
     Option.bind (field j ''connection_type'' assert_string
                    (\<lambda>v h. h\<lparr> History_ConnectionType := v \<rparr>) h) (\<lambda>h.
     Option.bind (field j ''activity'' assert_string (\<lambda>v h. h\<lparr> Activity := v \<rparr>) h) (\<lambda>h.
     Option.bind (field j ''timestamp'' assert_float64
                    (\<lambda>v h. let milli = int64_of_float64 v
                           in h\<lparr> Timestamp := time_Unix (MilliSecToSec milli)
                                                  (MilliSecToNano milli) \<rparr>) h) (\<lambda>h.
     field j ''duration'' assert_float64
                    (\<lambda>v h. let milli = int64_of_float64 v
                           in h\<lparr> History_Duration := int64 (milli * 1000000) \<rparr>) h)))))"

definition UnmarshalJSON ::
  "(int \<Rightarrow> int) \<Rightarrow> (int \<Rightarrow> int) \<Rightarrow> string + (string \<rightharpoonup> json) \<Rightarrow> ConnectionHistory
     \<Rightarrow> ConnectionHistory result" where
  "UnmarshalJSON MilliSecToSec MilliSecToNano decoded h =
     (case decoded of
        Inl e \<Rightarrow> Err e
      | Inr j \<Rightarrow>
          (case decode_fields MilliSecToSec MilliSecToNano j h of
             None \<Rightarrow> RuntimePanic
           | Some h' \<Rightarrow> Ok h'))"

definition zero_history :: ConnectionHistory where
  "zero_history = \<lparr> Ip = [], RequestId = [], Activity = [], Timestamp = \<lparr> sec = 0, nsec = 0 \<rparr>,
     History_ConnectionType = [], History_Duration = 0 \<rparr>"

section \<open>Close runs its body once\<close>




lemma chan_send_closeOnce: "chan_send ch r c = Some c' \<Longrightarrow> closeOnce c' = closeOnce c"
  by (auto simp: chan_send_def emit_def split: if_splits)

lemma close_inv_upd [simp]:
  "close_inv (c\<lparr>writer := w\<rparr>) = close_inv c"
  "close_inv (c\<lparr>reader := r\<rparr>) = close_inv c"
  "close_inv (c\<lparr>senders := s\<rparr>) = close_inv c"
  "close_inv (c\<lparr>wch := q\<rparr>) = close_inv c"
  "close_inv (c\<lparr>closewch := q'\<rparr>) = close_inv c"
  "close_inv (c\<lparr>chans := h\<rparr>) = close_inv c"
  "close_inv (c\<lparr>next_chan := n\<rparr>) = close_inv c"
  "close_inv (c\<lparr>msgChans := mc\<rparr>) = close_inv c"
  "close_inv (c\<lparr>lastPingedAt := l\<rparr>) = close_inv c"
  by (simp_all add: close_inv_def)















section \<open>The writer and the reader, one message at a time\<close>

lemma emit_simps [simp]:
  "trace (emit evs c) = trace c @ evs"
  "closeOnce (emit evs c) = closeOnce c"
  "closed_flag (emit evs c) = closed_flag c"
  "msgChans (emit evs c) = msgChans c"
  "wch (emit evs c) = wch c"
  "wch_closed (emit evs c) = wch_closed c"
  "closewch (emit evs c) = closewch c"
  "rch_closed (emit evs c) = rch_closed c"
  "lastPingedAt (emit evs c) = lastPingedAt c"
  "chans (emit evs c) = chans c"
  "next_chan (emit evs c) = next_chan c"
  "senders (emit evs c) = senders c"
  "writer (emit evs c) = writer c"
  "reader (emit evs c) = reader c"
  by (simp_all add: emit_def)

lemma wListen_step_senders:
  "wListen_step env c = Some c' \<Longrightarrow> senders c' = senders c \<and> next_chan c' = next_chan c"
  unfolding wListen_step_def
  by (auto simp: Close_def put_def chan_send_def Let_def
      split: writer_pc.splits list.splits if_splits option.splits)

lemma rListen_step_senders:
  "rListen_step env c = Some c' \<Longrightarrow> senders c' = senders c \<and> next_chan c' = next_chan c"
  unfolding rListen_step_def readWsMessage_def
  by (auto simp: Close_def delete_def chan_send_def find_chan_def Let_def
      split: reader_pc.splits list.splits if_splits option.splits sum.splits)

lemma Close_senders: "senders (Close c) = senders c \<and> next_chan (Close c) = next_chan c"
  by (simp add: Close_def)

lemma callers_inv_cong:
  "senders c' = senders c \<and> next_chan c' = next_chan c \<Longrightarrow> callers_inv c \<Longrightarrow> callers_inv c'"
  by (simp add: callers_inv_def)

lemma call_callers_inv:
  "sendMessage_call tid mt p now c = Some c' \<Longrightarrow> callers_inv c \<Longrightarrow> callers_inv c'"
  unfolding sendMessage_call_def callers_inv_def
  by (fastforce simp: Let_def less_Suc_eq split: sender_pc.splits if_splits)

lemma callers_inv_mono:
  assumes "callers_inv c" and "next_chan c \<le> next_chan c'"
    and "\<And>i ch. sender_chan (senders c' i) = Some ch \<Longrightarrow> sender_chan (senders c i) = Some ch"
  shows "callers_inv c'"
  unfolding callers_inv_def
proof (intro conjI allI impI)
  fix i ch assume "sender_chan (senders c' i) = Some ch"
  then have "sender_chan (senders c i) = Some ch" by (rule assms(3))
  with assms(1) have "ch < next_chan c" unfolding callers_inv_def by blast
  with assms(2) show "ch < next_chan c'" by simp
next
  fix i j ch
  assume "sender_chan (senders c' i) = Some ch \<and> sender_chan (senders c' j) = Some ch"
  then have "sender_chan (senders c i) = Some ch" "sender_chan (senders c j) = Some ch"
    by (auto intro: assms(3))
  with assms(1) show "i = j" unfolding callers_inv_def by blast
qed

lemma select1_callers_inv:
  assumes "sendMessage_select1 cfg tid ex pk c = Some c'" and "callers_inv c"
  shows "callers_inv c'"
proof (rule callers_inv_mono [OF assms(2)])
  show "next_chan c \<le> next_chan c'"
    using assms(1) unfolding sendMessage_select1_def return_from_def
    by (auto split: sender_pc.splits if_splits option.splits select_case.splits)
next
  fix i ch assume "sender_chan (senders c' i) = Some ch"
  with assms(1) show "sender_chan (senders c i) = Some ch"
    unfolding sendMessage_select1_def return_from_def
    by (auto split: sender_pc.splits if_splits option.splits select_case.splits)
qed

lemma deferred_delete_senders [simp]:
  "senders (deferred_delete m c) = senders c" "next_chan (deferred_delete m c) = next_chan c"
  by (simp_all add: deferred_delete_def delete_def)

lemma select2_callers_inv:
  assumes "sendMessage_select2 cfg tid ex pk c = Some c'" and "callers_inv c"
  shows "callers_inv c'"
proof (rule callers_inv_mono [OF assms(2)])
  show "next_chan c \<le> next_chan c'"
    using assms(1) unfolding sendMessage_select2_def return_from_def
    by (auto simp: Let_def split: sender_pc.splits if_splits option.splits select_case.splits)
next
  fix i ch assume "sender_chan (senders c' i) = Some ch"
  with assms(1) show "sender_chan (senders c i) = Some ch"
    unfolding sendMessage_select2_def return_from_def
    by (auto simp: Let_def split: sender_pc.splits if_splits option.splits select_case.splits)
qed

lemma step_callers_inv: "step cfg a c = Some c' \<Longrightarrow> callers_inv c \<Longrightarrow> callers_inv c'"
  by (cases "(cfg, a, c)" rule: step.cases)
     (auto dest: call_callers_inv select1_callers_inv select2_callers_inv
        wListen_step_senders rListen_step_senders
        intro: callers_inv_cong [OF Close_senders] callers_inv_cong)

lemma run_callers_inv: "run cfg as c = Some c' \<Longrightarrow> callers_inv c \<Longrightarrow> callers_inv c'"
  by (induction as arbitrary: c) (auto split: option.splits dest: step_callers_inv)

lemma new_conn_callers_inv: "callers_inv (new_conn t)"
  by (simp add: callers_inv_def new_conn_def)

subsection \<open>A response channel is sent on at most once\<close>

lemma upd_iffs:
  "((P(k0 := None)) k = Some ch) = (k \<noteq> k0 \<and> P k = Some ch)"
  "((P(k0 \<mapsto> c0)) k = Some ch) = ((k = k0 \<and> ch = c0) \<or> (k \<noteq> k0 \<and> P k = Some ch))"
  "((C(c0 := xs)) ch = []) = ((ch = c0 \<and> xs = []) \<or> (ch \<noteq> c0 \<and> C ch = []))"
  by auto

lemmas ok_simps = upd_iffs set_append set_simps distinct_append distinct.simps insert_iff
  empty_iff Diff_iff Un_iff Int_iff less_Suc_eq prod.inject option.inject option.distinct
  disjoint_iff

lemma okI:
  assumes "distinct T"
    and "\<And>ch k. ch \<in> set T \<Longrightarrow> ch < N \<and> C ch = [] \<and> P k \<noteq> Some ch"
    and "\<And>k ch. P k = Some ch \<Longrightarrow> ch < N \<and> C ch = []"
    and "\<And>k k' ch. P k = Some ch \<Longrightarrow> P k' = Some ch \<Longrightarrow> k = k'"
    and "\<And>k ch k'. F = Some (k, ch) \<Longrightarrow>
           ch < N \<and> C ch = [] \<and> ch \<notin> set T \<and> (P k' = Some ch \<longrightarrow> k' = k)"
    and "\<And>i ch k. (i, ch) \<in> S \<Longrightarrow>
           ch < N \<and> C ch = [] \<and> ch \<notin> set T \<and> P k \<noteq> Some ch \<and> F \<noteq> Some (k, ch)"
    and "\<And>i j ch. (i, ch) \<in> S \<Longrightarrow> (j, ch) \<in> S \<Longrightarrow> i = j"
  shows "slots_ok T P F S C N"
  unfolding slots_ok_def using assms by blast

lemma okD:
  assumes "slots_ok T P F S C N"
  shows "distinct T"
    and "\<forall>ch k. ch \<in> set T \<longrightarrow> ch < N \<and> C ch = [] \<and> P k \<noteq> Some ch"
    and "\<forall>k ch. P k = Some ch \<longrightarrow> ch < N \<and> C ch = []"
    and "\<forall>k k' ch. P k = Some ch \<longrightarrow> P k' = Some ch \<longrightarrow> k = k'"
    and "\<forall>k ch k'. F = Some (k, ch) \<longrightarrow>
           ch < N \<and> C ch = [] \<and> ch \<notin> set T \<and> (P k' = Some ch \<longrightarrow> k' = k)"
    and "\<forall>i ch k. (i, ch) \<in> S \<longrightarrow>
           ch < N \<and> C ch = [] \<and> ch \<notin> set T \<and> P k \<noteq> Some ch \<and> F \<noteq> Some (k, ch)"
    and "\<forall>i j ch. (i, ch) \<in> S \<longrightarrow> (j, ch) \<in> S \<longrightarrow> i = j"
  using assms unfolding slots_ok_def by blast+

lemma ok_fresh:
  assumes "slots_ok T P F S C N" and "\<And>ch. (i0, ch) \<notin> S"
  shows "slots_ok (T) (P) (F) (insert (i0, N) S) (C(N := [])) (Suc N)"
proof -
  note d = okD [OF assms(1)]
  show ?thesis
  proof (rule okI)
  show "distinct (T)"
    using d assms(2-) unfolding ok_simps by meson
next
  show "ch < Suc N \<and> (C(N := [])) ch = [] \<and> (P) k \<noteq> Some ch" if "ch \<in> set (T)" for ch k
    using that d assms(2-) unfolding ok_simps by blast
next
  show "ch < Suc N \<and> (C(N := [])) ch = []" if "(P) k = Some ch" for k ch
    using that d assms(2-) unfolding ok_simps by blast
next
  show "k = k'" if "(P) k = Some ch" and "(P) k' = Some ch" for k k' ch
    using that d assms(2-) unfolding ok_simps by blast
next
  show "ch < Suc N \<and> (C(N := [])) ch = [] \<and> ch \<notin> set (T) \<and> ((P) k' = Some ch \<longrightarrow> k' = k)" if "F = Some (k, ch)" for k ch k'
    using that d assms(2-) unfolding ok_simps by blast
next
  show "ch < Suc N \<and> (C(N := [])) ch = [] \<and> ch \<notin> set (T) \<and> (P) k \<noteq> Some ch \<and> F \<noteq> Some (k, ch)" if "(i, ch) \<in> insert (i0, N) S" for i ch k
    using that d assms(2-) unfolding ok_simps by blast
next
  show "i = j" if "(i, ch) \<in> insert (i0, N) S" and "(j, ch) \<in> insert (i0, N) S" for i j ch
    using that d assms(2-) unfolding ok_simps by blast
qed
qed

lemma ok_subset:
  assumes "slots_ok T P F S C N" and "S' \<subseteq> S"
  shows "slots_ok (T) (P) (F) (S') (C) (N)"
proof -
  note d = okD [OF assms(1)]
  show ?thesis
  proof (rule okI)
  show "distinct (T)"
    using d assms(2-) unfolding ok_simps by fast
next
  show "ch < N \<and> (C) ch = [] \<and> (P) k \<noteq> Some ch" if "ch \<in> set (T)" for ch k
    using that d assms(2-) unfolding ok_simps by blast
next
  show "ch < N \<and> (C) ch = []" if "(P) k = Some ch" for k ch
    using that d assms(2-) unfolding ok_simps by blast
next
  show "k = k'" if "(P) k = Some ch" and "(P) k' = Some ch" for k k' ch
    using that d assms(2-) unfolding ok_simps by blast
next
  show "ch < N \<and> (C) ch = [] \<and> ch \<notin> set (T) \<and> ((P) k' = Some ch \<longrightarrow> k' = k)" if "F = Some (k, ch)" for k ch k'
    using that d assms(2-) unfolding ok_simps by blast
next
  show "ch < N \<and> (C) ch = [] \<and> ch \<notin> set (T) \<and> (P) k \<noteq> Some ch \<and> F \<noteq> Some (k, ch)" if "(i, ch) \<in> S'" for i ch k
    using that d assms(2-) unfolding ok_simps by blast
next
  show "i = j" if "(i, ch) \<in> S'" and "(j, ch) \<in> S'" for i j ch
    using that d assms(2-) unfolding ok_simps by blast
qed
qed

lemma ok_enqueue:
  assumes "slots_ok T P F S C N" and "(i0, c0) \<in> S"
  shows "slots_ok (T @ [c0]) (P) (F) (S - {(i0, c0)}) (C) (N)"
proof -
  note d = okD [OF assms(1)]
  show ?thesis
  proof (rule okI)
  show "distinct (T @ [c0])"
    using d assms(2-) unfolding ok_simps by blast
next
  show "ch < N \<and> (C) ch = [] \<and> (P) k \<noteq> Some ch" if "ch \<in> set (T @ [c0])" for ch k
    using that d assms(2-) unfolding ok_simps by blast
next
  show "ch < N \<and> (C) ch = []" if "(P) k = Some ch" for k ch
    using that d assms(2-) unfolding ok_simps by blast
next
  show "k = k'" if "(P) k = Some ch" and "(P) k' = Some ch" for k k' ch
    using that d assms(2-) unfolding ok_simps by blast
next
  show "ch < N \<and> (C) ch = [] \<and> ch \<notin> set (T @ [c0]) \<and> ((P) k' = Some ch \<longrightarrow> k' = k)" if "F = Some (k, ch)" for k ch k'
    using that d assms(2-) unfolding ok_simps by blast
next
  show "ch < N \<and> (C) ch = [] \<and> ch \<notin> set (T @ [c0]) \<and> (P) k \<noteq> Some ch \<and> F \<noteq> Some (k, ch)" if "(i, ch) \<in> S - {(i0, c0)}" for i ch k
    using that d assms(2-) unfolding ok_simps by metis
next
  show "i = j" if "(i, ch) \<in> S - {(i0, c0)}" and "(j, ch) \<in> S - {(i0, c0)}" for i j ch
    using that d assms(2-) unfolding ok_simps by metis
qed
qed

lemma ok_delete:
  assumes "slots_ok T P F S C N"
  shows "slots_ok (T) (P(k0 := None)) (F) (S) (C) (N)"
proof -
  note d = okD [OF assms(1)]
  show ?thesis
  proof (rule okI)
  show "distinct (T)"
    using d unfolding ok_simps by meson
next
  show "ch < N \<and> (C) ch = [] \<and> (P(k0 := None)) k \<noteq> Some ch" if "ch \<in> set (T)" for ch k
    using that d unfolding ok_simps by blast
next
  show "ch < N \<and> (C) ch = []" if "(P(k0 := None)) k = Some ch" for k ch
    using that d unfolding ok_simps by blast
next
  show "k = k'" if "(P(k0 := None)) k = Some ch" and "(P(k0 := None)) k' = Some ch" for k k' ch
    using that d unfolding ok_simps by blast
next
  show "ch < N \<and> (C) ch = [] \<and> ch \<notin> set (T) \<and> ((P(k0 := None)) k' = Some ch \<longrightarrow> k' = k)" if "F = Some (k, ch)" for k ch k'
    using that d unfolding ok_simps by blast
next
  show "ch < N \<and> (C) ch = [] \<and> ch \<notin> set (T) \<and> (P(k0 := None)) k \<noteq> Some ch \<and> F \<noteq> Some (k, ch)" if "(i, ch) \<in> S" for i ch k
    using that d unfolding ok_simps by blast
next
  show "i = j" if "(i, ch) \<in> S" and "(j, ch) \<in> S" for i j ch
    using that d unfolding ok_simps by blast
qed
qed

lemma ok_recv:
  assumes "slots_ok T P F S C N" and "C c0 \<noteq> []"
  shows "slots_ok (T) (P) (F) (S) (C(c0 := xs)) (N)"
proof -
  note d = okD [OF assms(1)]
  show ?thesis
  proof (rule okI)
  show "distinct (T)"
    using d assms(2-) unfolding ok_simps by meson
next
  show "ch < N \<and> (C(c0 := xs)) ch = [] \<and> (P) k \<noteq> Some ch" if "ch \<in> set (T)" for ch k
    using that d assms(2-) unfolding ok_simps by blast
next
  show "ch < N \<and> (C(c0 := xs)) ch = []" if "(P) k = Some ch" for k ch
    using that d assms(2-) unfolding ok_simps by blast
next
  show "k = k'" if "(P) k = Some ch" and "(P) k' = Some ch" for k k' ch
    using that d assms(2-) unfolding ok_simps by blast
next
  show "ch < N \<and> (C(c0 := xs)) ch = [] \<and> ch \<notin> set (T) \<and> ((P) k' = Some ch \<longrightarrow> k' = k)" if "F = Some (k, ch)" for k ch k'
    using that d assms(2-) unfolding ok_simps by blast
next
  show "ch < N \<and> (C(c0 := xs)) ch = [] \<and> ch \<notin> set (T) \<and> (P) k \<noteq> Some ch \<and> F \<noteq> Some (k, ch)" if "(i, ch) \<in> S" for i ch k
    using that d assms(2-) unfolding ok_simps by blast
next
  show "i = j" if "(i, ch) \<in> S" and "(j, ch) \<in> S" for i j ch
    using that d assms(2-) unfolding ok_simps by blast
qed
qed

lemma ok_send:
  assumes "slots_ok (T1 @ c0 # T2) P F S C N"
  shows "slots_ok (T1 @ T2) (P) (F) (S) (C(c0 := xs)) (N)"
proof -
  note d = okD [OF assms(1)]
  show ?thesis
  proof (rule okI)
  show "distinct (T1 @ T2)"
    using d unfolding ok_simps by blast
next
  show "ch < N \<and> (C(c0 := xs)) ch = [] \<and> (P) k \<noteq> Some ch" if "ch \<in> set (T1 @ T2)" for ch k
    using that d unfolding ok_simps by blast
next
  show "ch < N \<and> (C(c0 := xs)) ch = []" if "(P) k = Some ch" for k ch
    using that d unfolding ok_simps by blast
next
  show "k = k'" if "(P) k = Some ch" and "(P) k' = Some ch" for k k' ch
    using that d unfolding ok_simps by meson
next
  show "ch < N \<and> (C(c0 := xs)) ch = [] \<and> ch \<notin> set (T1 @ T2) \<and> ((P) k' = Some ch \<longrightarrow> k' = k)" if "F = Some (k, ch)" for k ch k'
    using that d unfolding ok_simps by blast
next
  show "ch < N \<and> (C(c0 := xs)) ch = [] \<and> ch \<notin> set (T1 @ T2) \<and> (P) k \<noteq> Some ch \<and> F \<noteq> Some (k, ch)" if "(i, ch) \<in> S" for i ch k
    using that d unfolding ok_simps by metis
next
  show "i = j" if "(i, ch) \<in> S" and "(j, ch) \<in> S" for i j ch
    using that d unfolding ok_simps by presburger
qed
qed

lemma ok_put:
  assumes "slots_ok (T1 @ c0 # T2) P F S C N"
  shows "slots_ok (T1 @ T2) (P(k0 \<mapsto> c0)) (F) (S) (C) (N)"
proof -
  note d = okD [OF assms(1)]
  show ?thesis
  proof (rule okI)
  show "distinct (T1 @ T2)"
    using d unfolding ok_simps by blast
next
  show "ch < N \<and> (C) ch = [] \<and> (P(k0 \<mapsto> c0)) k \<noteq> Some ch" if "ch \<in> set (T1 @ T2)" for ch k
    using that d unfolding ok_simps by blast
next
  show "ch < N \<and> (C) ch = []" if "(P(k0 \<mapsto> c0)) k = Some ch" for k ch
    using that d unfolding ok_simps by blast
next
  show "k = k'" if "(P(k0 \<mapsto> c0)) k = Some ch" and "(P(k0 \<mapsto> c0)) k' = Some ch" for k k' ch
    using that d unfolding ok_simps by metis
next
  show "ch < N \<and> (C) ch = [] \<and> ch \<notin> set (T1 @ T2) \<and> ((P(k0 \<mapsto> c0)) k' = Some ch \<longrightarrow> k' = k)" if "F = Some (k, ch)" for k ch k'
    using that d unfolding ok_simps by blast
next
  show "ch < N \<and> (C) ch = [] \<and> ch \<notin> set (T1 @ T2) \<and> (P(k0 \<mapsto> c0)) k \<noteq> Some ch \<and> F \<noteq> Some (k, ch)" if "(i, ch) \<in> S" for i ch k
    using that d unfolding ok_simps by presburger
next
  show "i = j" if "(i, ch) \<in> S" and "(j, ch) \<in> S" for i j ch
    using that d unfolding ok_simps by metis
qed
qed

lemma ok_find:
  assumes "slots_ok T P None S C N" and "P k0 = Some c0"
  shows "slots_ok (T) (P) (Some (k0, c0)) (S) (C) (N)"
proof -
  note d = okD [OF assms(1)]
  show ?thesis
  proof (rule okI)
  show "distinct (T)"
    using d assms(2-) unfolding ok_simps by meson
next
  show "ch < N \<and> (C) ch = [] \<and> (P) k \<noteq> Some ch" if "ch \<in> set (T)" for ch k
    using that d assms(2-) unfolding ok_simps by blast
next
  show "ch < N \<and> (C) ch = []" if "(P) k = Some ch" for k ch
    using that d assms(2-) unfolding ok_simps by blast
next
  show "k = k'" if "(P) k = Some ch" and "(P) k' = Some ch" for k k' ch
    using that d assms(2-) unfolding ok_simps by blast
next
  show "ch < N \<and> (C) ch = [] \<and> ch \<notin> set (T) \<and> ((P) k' = Some ch \<longrightarrow> k' = k)" if "Some (k0, c0) = Some (k, ch)" for k ch k'
    using that d assms(2-) unfolding ok_simps by blast
next
  show "ch < N \<and> (C) ch = [] \<and> ch \<notin> set (T) \<and> (P) k \<noteq> Some ch \<and> Some (k0, c0) \<noteq> Some (k, ch)" if "(i, ch) \<in> S" for i ch k
    using that d assms(2-) unfolding ok_simps by blast
next
  show "i = j" if "(i, ch) \<in> S" and "(j, ch) \<in> S" for i j ch
    using that d assms(2-) unfolding ok_simps by presburger
qed
qed

lemma ok_rdelete:
  assumes "slots_ok T P (Some (k0, c0)) S C N"
  shows "slots_ok (c0 # T) (P(k0 := None)) (None) (S) (C) (N)"
proof -
  note d = okD [OF assms(1)]
  show ?thesis
  proof (rule okI)
  show "distinct (c0 # T)"
    using d unfolding ok_simps by blast
next
  show "ch < N \<and> (C) ch = [] \<and> (P(k0 := None)) k \<noteq> Some ch" if "ch \<in> set (c0 # T)" for ch k
    using that d unfolding ok_simps by blast
next
  show "ch < N \<and> (C) ch = []" if "(P(k0 := None)) k = Some ch" for k ch
    using that d unfolding ok_simps by blast
next
  show "k = k'" if "(P(k0 := None)) k = Some ch" and "(P(k0 := None)) k' = Some ch" for k k' ch
    using that d unfolding ok_simps by blast
next
  show "ch < N \<and> (C) ch = [] \<and> ch \<notin> set (c0 # T) \<and> ((P(k0 := None)) k' = Some ch \<longrightarrow> k' = k)" if "None = Some (k, ch)" for k ch k'
    using that d unfolding ok_simps by force
next
  show "ch < N \<and> (C) ch = [] \<and> ch \<notin> set (c0 # T) \<and> (P(k0 := None)) k \<noteq> Some ch \<and> None \<noteq> Some (k, ch)" if "(i, ch) \<in> S" for i ch k
    using that d unfolding ok_simps by blast
next
  show "i = j" if "(i, ch) \<in> S" and "(j, ch) \<in> S" for i j ch
    using that d unfolding ok_simps by presburger
qed
qed


lemma slots_inv_frame:
  assumes "slots_inv c" and "transit c' = transit c" and "msgChans c' = msgChans c"
    and "found c' = found c" and "sel1 c' = sel1 c" and "chans c' = chans c"
    and "next_chan c' = next_chan c"
  shows "slots_inv c'"
  using assms by (simp add: slots_inv_def)

lemma new_conn_slots_inv: "slots_inv (new_conn t)"
  unfolding slots_inv_def
  by (rule okI) (simp_all add: new_conn_def transit_def found_def sel1_def)

lemma Close_slots_inv: "slots_inv c \<Longrightarrow> slots_inv (Close c)"
  by (erule slots_inv_frame) (simp_all add: Close_def transit_def found_def sel1_def)

lemma deferred_delete_slots_inv: "slots_inv c \<Longrightarrow> slots_inv (deferred_delete m c)"
  unfolding slots_inv_def deferred_delete_def delete_def
  by (auto simp: transit_def found_def sel1_def intro: ok_delete)

lemma return_from_slots_inv:
  assumes "slots_inv c"
  shows "slots_inv (return_from tid r c)"
proof -
  have "sel1 (return_from tid r c) \<subseteq> sel1 c"
    by (auto simp: sel1_def return_from_def split: if_splits)
  with assms show ?thesis
    unfolding slots_inv_def
    by (auto simp: transit_def found_def return_from_def intro: ok_subset)
qed

lemma call_slots_inv:
  assumes "sendMessage_call tid mt p now c = Some c'" and "slots_inv c"
  shows "slots_inv c'"
proof -
  from assms(1) obtain m where idle: "senders c tid = S_idle"
    and c': "c' = c\<lparr> chans := (chans c)(next_chan c := []), next_chan := Suc (next_chan c),
                       senders := (senders c)(tid := S_select1 m (next_chan c)) \<rparr>"
    by (auto simp: sendMessage_call_def Let_def split: sender_pc.splits)
  have s: "sel1 c' = insert (tid, next_chan c) (sel1 c)"
    using idle by (auto simp: sel1_def c' split: if_splits)
  have n: "\<And>ch. (tid, ch) \<notin> sel1 c" using idle by (simp add: sel1_def)
  have "slots_ok (transit c) (msgChans c) (found c) (insert (tid, next_chan c) (sel1 c))
          ((chans c)(next_chan c := [])) (Suc (next_chan c))"
    using assms(2) n unfolding slots_inv_def by (rule ok_fresh)
  then show ?thesis
    unfolding slots_inv_def s by (simp add: c' transit_def found_def)
qed

lemma select1_slots_inv:
  assumes "sendMessage_select1 cfg tid ex pk c = Some c'" and "slots_inv c"
  shows "slots_inv c'"
proof -
  from assms(1) obtain m ch where pc: "senders c tid = S_select1 m ch"
    by (auto simp: sendMessage_select1_def split: sender_pc.splits)
  from assms(1) pc consider r where "c' = return_from tid r c"
    | "c' = c\<lparr> wch := wch c @ [\<lparr> req_msg = m, respCh = ch \<rparr>],
                  senders := (senders c)(tid := S_select2 m ch) \<rparr>"
    by (auto simp: sendMessage_select1_def split: option.splits select_case.splits if_splits)
  then show ?thesis
  proof cases
    case 1
    then show ?thesis using return_from_slots_inv [OF assms(2)] by simp
  next
    case 2
    have s: "sel1 c' = sel1 c - {(tid, ch)}"
      using pc by (auto simp: sel1_def 2 split: if_splits)
    have t: "transit c' = transit c @ [ch]" by (simp add: 2 transit_def)
    have "(tid, ch) \<in> sel1 c" using pc by (simp add: sel1_def)
    with assms(2) have "slots_ok (transit c @ [ch]) (msgChans c) (found c) (sel1 c - {(tid, ch)})
        (chans c) (next_chan c)"
      unfolding slots_inv_def by (rule ok_enqueue)
    then show ?thesis unfolding slots_inv_def s t by (simp add: 2 found_def)
  qed
qed

lemma select2_slots_inv:
  assumes "sendMessage_select2 cfg tid ex pk c = Some c'" and "slots_inv c"
  shows "slots_inv c'"
proof -
  from assms(1) obtain m ch where pc: "senders c tid = S_select2 m ch"
    by (auto simp: sendMessage_select2_def split: sender_pc.splits)
  from assms(1) pc consider r where "c' = return_from tid r (deferred_delete m c)"
    | r where "chans c ch \<noteq> []"
        "c' = return_from tid r (deferred_delete m (c\<lparr> chans := (chans c)(ch := tl (chans c ch)) \<rparr>))"
    by (auto simp: sendMessage_select2_def Let_def select_poll_def
        split: option.splits select_case.splits if_splits)
  then show ?thesis
  proof cases
    case 1
    then show ?thesis
      using return_from_slots_inv [OF deferred_delete_slots_inv [OF assms(2)]] by simp
  next
    case 2
    have "slots_ok (transit c) (msgChans c) (found c) (sel1 c)
        ((chans c)(ch := tl (chans c ch))) (next_chan c)"
      using assms(2) 2(1) unfolding slots_inv_def by (rule ok_recv)
    then have "slots_inv (c\<lparr> chans := (chans c)(ch := tl (chans c ch)) \<rparr>)"
      unfolding slots_inv_def by (simp add: transit_def found_def sel1_def)
    then show ?thesis
      using return_from_slots_inv [OF deferred_delete_slots_inv] 2(2) by simp
  qed
qed

lemma chan_send_slots_inv:
  assumes "chan_send ch r c = Some c1" and "slots_inv c"
    and "transit c = T1 @ ch # T2" and "transit (c1\<lparr> writer := w, reader := rd \<rparr>) = T1 @ T2"
    and "found (c1\<lparr> writer := w, reader := rd \<rparr>) = found c"
  shows "slots_inv (c1\<lparr> writer := w, reader := rd \<rparr>)"
proof -
  from assms(1) have c1: "c1 = emit [EvSlotSend ch r] (c\<lparr> chans := (chans c)(ch := [r]) \<rparr>)"
    by (auto simp: chan_send_def split: if_splits)
  have "slots_ok (T1 @ T2) (msgChans c) (found c) (sel1 c) ((chans c)(ch := [r])) (next_chan c)"
    using assms(2) unfolding slots_inv_def assms(3) by (rule ok_send)
  then show ?thesis
    unfolding slots_inv_def assms(4,5) by (simp add: c1 sel1_def)
qed

lemma wListen_step_slots_inv:
  assumes "wListen_step env c = Some c'" and "slots_inv c"
  shows "slots_inv c'"
proof (cases "writer c")
  case W_recv
  with assms(1) consider req rest where "wch c = req # rest" "c' = c\<lparr> wch := rest, writer := W_send req \<rparr>"
    | "wch c = []" "c' = c\<lparr> writer := W_closewait \<rparr>"
    by (auto simp: wListen_step_def split: list.splits if_splits)
  then show ?thesis
  proof cases
    case 1
    with W_recv show ?thesis
      by (intro slots_inv_frame [OF assms(2)]) (simp_all add: transit_def found_def sel1_def)
  next
    case 2
    with W_recv show ?thesis
      by (intro slots_inv_frame [OF assms(2)]) (simp_all add: transit_def found_def sel1_def)
  qed
next
  case (W_send req)
  with assms(1) show ?thesis
    by (intro slots_inv_frame [OF assms(2)])
       (auto simp: wListen_step_def Let_def transit_def found_def sel1_def split: option.splits)
next
  case (W_reply req er)
  with assms(1) obtain c1 where
    cs: "chan_send (respCh req) \<lparr> resp_msg = None, resp_err = Some er \<rparr> c = Some c1"
    and c': "c' = c1\<lparr> writer := (if is_WebsocketError er then W_close else W_recv) \<rparr>"
    by (auto simp: wListen_step_def split: option.splits)
  have r: "reader c1 = reader c" "wch c1 = wch c"
    using cs by (auto simp: chan_send_def split: if_splits)
  have "slots_inv (c1\<lparr> writer := (if is_WebsocketError er then W_close else W_recv),
      reader := reader c \<rparr>)"
    by (rule chan_send_slots_inv [OF cs assms(2),
          where ?T1.0 = "case reader c of R_deliver m ch \<Rightarrow> [ch] | _ \<Rightarrow> []"
            and ?T2.0 = "map respCh (wch c)"])
       (simp_all add: transit_def found_def W_reply r)
  then show ?thesis using r(1) [symmetric] by (simp add: c')
next
  case W_close
  with assms(1) have "c' = (Close c)\<lparr> writer := W_recv \<rparr>" by (simp add: wListen_step_def)
  with W_close show ?thesis
    by (intro slots_inv_frame [OF assms(2)])
       (simp_all add: transit_def found_def sel1_def Close_def)
next
  case (W_success req)
  show ?thesis
  proof (cases "MessageType (req_msg req) = SyncRequestMessage")
    case True
    with assms(1) W_success have c': "c' = (emit [EvPut (MessageId (req_msg req)) (respCh req)]
        (put (MessageId (req_msg req)) (respCh req) c))\<lparr> writer := W_recv \<rparr>"
      by (simp add: wListen_step_def)
    have t: "transit c = (case reader c of R_deliver m ch \<Rightarrow> [ch] | _ \<Rightarrow> []) @
        respCh req # map respCh (wch c)"
      by (simp add: transit_def W_success)
    have "slots_ok ((case reader c of R_deliver m ch \<Rightarrow> [ch] | _ \<Rightarrow> []) @ map respCh (wch c))
        ((msgChans c)(MessageId (req_msg req) \<mapsto> respCh req)) (found c) (sel1 c) (chans c)
        (next_chan c)"
      using assms(2) unfolding slots_inv_def t by (rule ok_put)
    then show ?thesis
      unfolding slots_inv_def by (simp add: c' put_def transit_def found_def sel1_def)
  next
    case False
    with assms(1) W_success obtain c1 where
      cs: "chan_send (respCh req) \<lparr> resp_msg = None, resp_err = None \<rparr> c = Some c1"
      and c': "c' = c1\<lparr> writer := W_recv \<rparr>"
      by (auto simp: wListen_step_def split: option.splits)
    have r: "reader c1 = reader c" "wch c1 = wch c"
      using cs by (auto simp: chan_send_def split: if_splits)
    have "slots_inv (c1\<lparr> writer := W_recv, reader := reader c \<rparr>)"
      by (rule chan_send_slots_inv [OF cs assms(2),
            where ?T1.0 = "case reader c of R_deliver m ch \<Rightarrow> [ch] | _ \<Rightarrow> []"
              and ?T2.0 = "map respCh (wch c)"])
         (simp_all add: transit_def found_def W_success r)
    then show ?thesis using r(1) [symmetric] by (simp add: c')
  qed
next
  case W_closewait
  with assms(1) show ?thesis
    by (intro slots_inv_frame [OF assms(2)])
       (auto simp: wListen_step_def transit_def found_def sel1_def split: list.splits)
next
  case W_sendclose
  with assms(1) show ?thesis
    by (intro slots_inv_frame [OF assms(2)])
       (auto simp: wListen_step_def Let_def transit_def found_def sel1_def)
next
  case W_exit
  with assms(1) show ?thesis by (simp add: wListen_step_def)
qed

lemma readWsMessage_frame:
  assumes "readWsMessage env c = (c1, r)"
  shows "wch c1 = wch c" "writer c1 = writer c" "reader c1 = reader c" "msgChans c1 = msgChans c"
    "senders c1 = senders c" "chans c1 = chans c" "next_chan c1 = next_chan c"
  using assms
  by (auto simp: readWsMessage_def Let_def split: option.splits if_splits)

lemma rListen_step_slots_inv:
  assumes "rListen_step env c = Some c'" and "slots_inv c"
  shows "slots_inv c'"
proof (cases "reader c")
  case R_loop
  with assms(1) show ?thesis
    by (intro slots_inv_frame [OF assms(2)])
       (auto simp: rListen_step_def transit_def found_def sel1_def)
next
  case R_read
  with assms(1) obtain c1 r where rd: "readWsMessage env c = (c1, r)"
    and c': "c' = c1\<lparr> reader := R_got r \<rparr>"
    by (auto simp: rListen_step_def split: prod.splits)
  note f = readWsMessage_frame [OF rd]
  show ?thesis
    by (intro slots_inv_frame [OF assms(2)])
       (simp_all add: c' f R_read transit_def found_def sel1_def)
next
  case (R_got r)
  show ?thesis
  proof (cases "\<exists>m ch. r = Inr m \<and> MessageType m = ResponseMessage \<and>
      find_chan (MessageId m) c = Some ch")
    case True
    then obtain m ch where r: "r = Inr m" and m: "MessageType m = ResponseMessage"
      and ch: "msgChans c (MessageId m) = Some ch"
      by (auto simp: find_chan_def)
    with assms(1) R_got have c': "c' = c\<lparr> reader := R_found m ch \<rparr>"
      by (simp add: rListen_step_def find_chan_def)
    have "found c = None" by (simp add: found_def R_got)
    with assms(2) ch have "slots_ok (transit c) (msgChans c) (Some (MessageId m, ch)) (sel1 c)
        (chans c) (next_chan c)"
      unfolding slots_inv_def by (auto intro: ok_find)
    then show ?thesis
      unfolding slots_inv_def by (simp add: c' transit_def found_def sel1_def R_got)
  next
    case False
    with assms(1) R_got show ?thesis
      by (intro slots_inv_frame [OF assms(2)])
         (auto simp: rListen_step_def transit_def found_def sel1_def
          split: sum.splits if_splits option.splits)
  qed
next
  case (R_found m ch)
  with assms(1) have c': "c' = (emit [EvDelete (MessageId m)] (delete (MessageId m) c))
      \<lparr> reader := R_deliver m ch \<rparr>"
    by (simp add: rListen_step_def)
  have f: "found c = Some (MessageId m, ch)" by (simp add: found_def R_found)
  have "slots_ok (ch # transit c) ((msgChans c)(MessageId m := None)) None (sel1 c) (chans c)
      (next_chan c)"
    using assms(2) unfolding slots_inv_def f by (rule ok_rdelete)
  then show ?thesis
    unfolding slots_inv_def by (simp add: c' delete_def transit_def found_def sel1_def R_found)
next
  case (R_deliver m ch)
  with assms(1) obtain c1 where
    cs: "chan_send ch \<lparr> resp_msg = Some m, resp_err = None \<rparr> c = Some c1"
    and c': "c' = c1\<lparr> reader := R_handler m \<rparr>"
    by (auto simp: rListen_step_def split: option.splits)
  have r: "writer c1 = writer c" "wch c1 = wch c"
    using cs by (auto simp: chan_send_def split: if_splits)
  have "slots_inv (c1\<lparr> writer := writer c, reader := R_handler m \<rparr>)"
    by (rule chan_send_slots_inv [OF cs assms(2), where ?T1.0 = "[]"
          and ?T2.0 = "(case writer_chan (writer c) of Some ch \<Rightarrow> [ch] | None \<Rightarrow> []) @
             map respCh (wch c)"])
       (simp_all add: transit_def found_def R_deliver r)
  then show ?thesis using r(1) [symmetric] by (simp add: c')
next
  case (R_handler m)
  with assms(1) show ?thesis
    by (intro slots_inv_frame [OF assms(2)])
       (auto simp: rListen_step_def transit_def found_def sel1_def)
next
  case R_close
  with assms(1) have "c' = (Close c)\<lparr> reader := R_exit \<rparr>" by (simp add: rListen_step_def)
  with R_close show ?thesis
    by (intro slots_inv_frame [OF assms(2)])
       (simp_all add: transit_def found_def sel1_def Close_def)
next
  case R_exit
  with assms(1) show ?thesis by (simp add: rListen_step_def)
qed

lemma step_slots_inv: "step cfg a c = Some c' \<Longrightarrow> slots_inv c \<Longrightarrow> slots_inv c'"
  by (cases "(cfg, a, c)" rule: step.cases)
     (auto intro: call_slots_inv select1_slots_inv select2_slots_inv wListen_step_slots_inv
        rListen_step_slots_inv Close_slots_inv)

lemma run_slots_inv: "run cfg as c = Some c' \<Longrightarrow> slots_inv c \<Longrightarrow> slots_inv c'"
  by (induction as arbitrary: c) (auto split: option.splits dest: step_slots_inv)

lemma slots_inv_pending_empty:
  assumes "slots_inv c" and "msgChans c k = Some ch"
  shows "chans c ch = []"
  using okD(3) [OF assms(1) [unfolded slots_inv_def]] assms(2) by blast

lemma slots_inv_inbox_empty:
  assumes "slots_inv c" and "req \<in> set (wch c)"
  shows "chans c (respCh req) = []"
proof -
  have "respCh req \<in> set (transit c)" using assms(2) by (simp add: transit_def)
  with okD(2) [OF assms(1) [unfolded slots_inv_def]] show ?thesis by blast
qed

text \<open>
  C5. In a state the connection can reach, the writer takes a request from its inbox,
  transmits it and answers (three steps of the writer task, none of which can block,
  \<open>env\<close> being what the transport does during the transmission). After a
  successful transmission of a synchronous request the pair (message id, response channel)
  is in the pending table and the caller's channel is left empty; after a successful
  transmission of any other message the caller's channel holds an empty response. After a
  failed one the channel holds the error, and the writer goes on to call \<^verbatim>\<open>Close\<close>
  (its fourth step) exactly when the error is a \<^verbatim>\<open>*WebsocketError\<close>.
\<close>

theorem wListen_outcome:
  assumes "run cfg as (new_conn t) = Some c" and "writer c = W_recv" and "wch c = req # rest"
  shows "(sendWsMessage env (req_msg req) = None \<and> MessageType (req_msg req) = SyncRequestMessage \<longrightarrow>
            run cfg [Writer e0, Writer env, Writer e2] c = Some
              (c\<lparr> wch := rest,
                  msgChans := (msgChans c)(MessageId (req_msg req) \<mapsto> respCh req),
                  trace := trace c @ [EvTransport (req_msg req) None,
                                      EvPut (MessageId (req_msg req)) (respCh req)] \<rparr>)) \<and>
         (sendWsMessage env (req_msg req) = None \<and> MessageType (req_msg req) \<noteq> SyncRequestMessage \<longrightarrow>
            run cfg [Writer e0, Writer env, Writer e2] c = Some
              (c\<lparr> wch := rest,
                  chans := (chans c)(respCh req := [\<lparr> resp_msg = None, resp_err = None \<rparr>]),
                  trace := trace c @ [EvTransport (req_msg req) None,
                     EvSlotSend (respCh req) \<lparr> resp_msg = None, resp_err = None \<rparr>] \<rparr>)) \<and>
         (\<forall>er. sendWsMessage env (req_msg req) = Some er \<and> \<not> is_WebsocketError er \<longrightarrow>
            run cfg [Writer e0, Writer env, Writer e2] c = Some
              (c\<lparr> wch := rest,
                  chans := (chans c)(respCh req := [\<lparr> resp_msg = None, resp_err = Some er \<rparr>]),
                  trace := trace c @ [EvTransport (req_msg req) (Some er),
                     EvSlotSend (respCh req) \<lparr> resp_msg = None, resp_err = Some er \<rparr>] \<rparr>)) \<and>
         (\<forall>er. sendWsMessage env (req_msg req) = Some er \<and> is_WebsocketError er \<longrightarrow>
            run cfg [Writer e0, Writer env, Writer e2, Writer e3] c = Some
              (Close (c\<lparr> wch := rest,
                  chans := (chans c)(respCh req := [\<lparr> resp_msg = None, resp_err = Some er \<rparr>]),
                  trace := trace c @ [EvTransport (req_msg req) (Some er),
                     EvSlotSend (respCh req) \<lparr> resp_msg = None, resp_err = Some er \<rparr>] \<rparr>)))"
proof -
  have "slots_inv c" using run_slots_inv [OF assms(1) new_conn_slots_inv] .
  then have "chans c (respCh req) = []"
    using assms(3) by (intro slots_inv_inbox_empty) simp_all
  with assms(2,3) show ?thesis
    by (cases "sendWsMessage env (req_msg req)")
       (simp_all add: wListen_step_def chan_send_def put_def emit_def Close_def)
qed

text \<open>
  C2. The reader reads a Response frame \<open>m\<close> in a state the connection can reach. If the
  pending table holds a channel for the id of \<open>m\<close>, the reader's next steps delete the
  entry, then send \<open>m\<close> on that channel (which is empty, so that the send does not
  block), then call the handler with \<open>(m, nil)\<close>, in this order, and no other channel
  changes; at most one calling task holds that channel. If the
  table holds none, the handler is called with \<open>m\<close> and the unexpected-response error and
  nothing else changes: the connection stays as open as it was.
\<close>

theorem rListen_response:
  assumes "run cfg as (new_conn t) = Some c"
    and "reader c = R_read"
    and "SetReadDeadline_err env = None" and "ReadMessage_err env = None"
    and "\<not> ReadMessage_isClose env" and "Unmarshal_result env = Inr m"
    and "MessageType m = ResponseMessage"
  shows "(\<forall>ch. msgChans c (MessageId m) = Some ch \<longrightarrow>
            run cfg [Reader env, Reader e1, Reader e2, Reader e3, Reader e4] c = Some
              (c\<lparr> lastPingedAt := read_now env,
                  msgChans := (msgChans c)(MessageId m := None),
                  chans := (chans c)(ch := [\<lparr> resp_msg = Some m, resp_err = None \<rparr>]),
                  reader := R_loop,
                  trace := trace c @ [EvUpdateRegistry, EvDelete (MessageId m),
                     EvSlotSend ch \<lparr> resp_msg = Some m, resp_err = None \<rparr>,
                     EvHandler (Some m) None] \<rparr>) \<and>
            (\<forall>i j. sender_chan (senders c i) = Some ch \<and> sender_chan (senders c j) = Some ch
                 \<longrightarrow> i = j)) \<and>
         (msgChans c (MessageId m) = None \<longrightarrow>
            run cfg [Reader env, Reader e1] c = Some
              (c\<lparr> lastPingedAt := read_now env,
                  reader := R_loop,
                  trace := trace c @ [EvUpdateRegistry,
                     EvHandler (Some m) (Some UnexpectedResponse)] \<rparr>))"
proof -
  have "callers_inv c"
    using run_callers_inv [OF assms(1) new_conn_callers_inv] .
  then have uniq: "\<And>ch i j. sender_chan (senders c i) = Some ch \<Longrightarrow>
      sender_chan (senders c j) = Some ch \<Longrightarrow> i = j"
    unfolding callers_inv_def by blast
  have absent: "msgChans c (MessageId m) = None \<longrightarrow>
            run cfg [Reader env, Reader e1] c = Some
              (c\<lparr> lastPingedAt := read_now env,
                  reader := R_loop,
                  trace := trace c @ [EvUpdateRegistry,
                     EvHandler (Some m) (Some UnexpectedResponse)] \<rparr>)"
    using assms(2-)
    by (simp add: rListen_step_def readWsMessage_def find_chan_def emit_def)
  have inv: "slots_inv c" using run_slots_inv [OF assms(1) new_conn_slots_inv] .
  have present: "\<And>ch. msgChans c (MessageId m) = Some ch \<Longrightarrow>
            run cfg [Reader env, Reader e1, Reader e2, Reader e3, Reader e4] c = Some
              (c\<lparr> lastPingedAt := read_now env,
                  msgChans := (msgChans c)(MessageId m := None),
                  chans := (chans c)(ch := [\<lparr> resp_msg = Some m, resp_err = None \<rparr>]),
                  reader := R_loop,
                  trace := trace c @ [EvUpdateRegistry, EvDelete (MessageId m),
                     EvSlotSend ch \<lparr> resp_msg = Some m, resp_err = None \<rparr>,
                     EvHandler (Some m) None] \<rparr>)"
    using assms(2-) slots_inv_pending_empty [OF inv]
    by (simp add: rListen_step_def readWsMessage_def find_chan_def emit_def delete_def
        chan_send_def)
  show ?thesis using absent present uniq by blast
qed

lemmas engine_defs =
  sendMessage_call_def sendMessage_select1_def sendMessage_select2_def select_poll_def
  can_send_def return_from_def deferred_delete_def wListen_step_def rListen_step_def
  readWsMessage_def sendWsMessage_def chan_send_def put_def delete_def find_chan_def emit_def
  Close_def new_conn_def

lemma hex26: "FormatInt16 26 = ''1a''"
  by (simp add: FormatInt16_def hexchar_def)

theorem wListen_outcome_witness:
  "\<exists>c. run cfg0 [Sender 0 (Call AsyncRequestMessage [] 26), Sender 0 (Select1 False False)]
            (new_conn 0) = Some c \<and>
       writer c = W_recv \<and>
       wch c = [\<lparr> req_msg = \<lparr> MessageType = AsyncRequestMessage, MessageId = ''1a'',
                              Payload = [] \<rparr>, respCh = 0 \<rparr>] \<and>
       run cfg0 [Writer env_ok, Writer env_broken, Writer env_ok, Writer env_ok] c =
         Some (Close (c\<lparr> wch := [],
            chans := (chans c)
              (0 := [\<lparr> resp_msg = None, resp_err = Some (WebsocketError ''broken pipe'') \<rparr>]),
            trace := trace c @
              [EvTransport \<lparr> MessageType = AsyncRequestMessage, MessageId = ''1a'', Payload = [] \<rparr>
                 (Some (WebsocketError ''broken pipe'')),
               EvSlotSend 0 \<lparr> resp_msg = None,
                                  resp_err = Some (WebsocketError ''broken pipe'') \<rparr>] \<rparr>))"
proof -
  let ?req = "\<lparr> req_msg = \<lparr> MessageType = AsyncRequestMessage, MessageId = ''1a'',
                              Payload = [] \<rparr>, respCh = 0 \<rparr>"
  obtain c where r: "run cfg0 [Sender 0 (Call AsyncRequestMessage [] 26),
        Sender 0 (Select1 False False)] (new_conn 0) = Some c"
    and c: "writer c = W_recv" "wch c = ?req # []"
    by (simp add: engine_defs cfg0_def hex26)
  have e: "sendWsMessage env_broken (req_msg ?req) = Some (WebsocketError ''broken pipe'')"
    "is_WebsocketError (WebsocketError ''broken pipe'')"
    by (simp_all add: sendWsMessage_def env_broken_def)
  from wListen_outcome [OF r c, of env_broken env_ok env_ok env_ok] e
  have "run cfg0 [Writer env_ok, Writer env_broken, Writer env_ok, Writer env_ok] c =
         Some (Close (c\<lparr> wch := [],
            chans := (chans c)
              (0 := [\<lparr> resp_msg = None, resp_err = Some (WebsocketError ''broken pipe'') \<rparr>]),
            trace := trace c @
              [EvTransport \<lparr> MessageType = AsyncRequestMessage, MessageId = ''1a'', Payload = [] \<rparr>
                 (Some (WebsocketError ''broken pipe'')),
               EvSlotSend 0 \<lparr> resp_msg = None,
                                  resp_err = Some (WebsocketError ''broken pipe'') \<rparr>] \<rparr>))"
    by simp
  with r c show ?thesis by auto
qed

theorem rListen_response_witness:
  "\<exists>c. run cfg0 [Sender 0 (Call SyncRequestMessage [] 26), Sender 0 (Select1 False False),
                   Writer env_ok, Writer env_ok, Writer env_ok, Reader (env_resp resp1a)]
            (new_conn 0) = Some c \<and>
       reader c = R_read \<and> msgChans c ''1a'' = Some 0 \<and> chans c 0 = [] \<and>
       run cfg0 [Reader (env_resp resp1a), Reader (env_resp resp1a), Reader (env_resp resp1a),
                 Reader (env_resp resp1a), Reader (env_resp resp1a)] c = Some
         (c\<lparr> lastPingedAt := 7,
             msgChans := (msgChans c)(''1a'' := None),
             chans := (chans c)(0 := [\<lparr> resp_msg = Some resp1a, resp_err = None \<rparr>]),
             reader := R_loop,
             trace := trace c @ [EvUpdateRegistry, EvDelete ''1a'',
                EvSlotSend 0 \<lparr> resp_msg = Some resp1a, resp_err = None \<rparr>,
                EvHandler (Some resp1a) None] \<rparr>)"
proof -
  obtain c where r: "run cfg0 [Sender 0 (Call SyncRequestMessage [] 26),
        Sender 0 (Select1 False False), Writer env_ok, Writer env_ok, Writer env_ok,
        Reader (env_resp resp1a)] (new_conn 0) = Some c"
    and c: "reader c = R_read" "msgChans c ''1a'' = Some 0" "chans c 0 = []"
    by (simp add: engine_defs cfg0_def env_ok_def hex26)
  have e: "SetReadDeadline_err (env_resp resp1a) = None" "ReadMessage_err (env_resp resp1a) = None"
    "\<not> ReadMessage_isClose (env_resp resp1a)" "Unmarshal_result (env_resp resp1a) = Inr resp1a"
    "MessageType resp1a = ResponseMessage" "MessageId resp1a = ''1a''" "read_now (env_resp resp1a) = 7"
    by (simp_all add: env_resp_def resp1a_def)
  from rListen_response [OF r c(1) e(1-5), of "env_resp resp1a" "env_resp resp1a"
      "env_resp resp1a" "env_resp resp1a"] c e(6,7)
  have "run cfg0 [Reader (env_resp resp1a), Reader (env_resp resp1a), Reader (env_resp resp1a),
                 Reader (env_resp resp1a), Reader (env_resp resp1a)] c = Some
         (c\<lparr> lastPingedAt := 7,
             msgChans := (msgChans c)(''1a'' := None),
             chans := (chans c)(0 := [\<lparr> resp_msg = Some resp1a, resp_err = None \<rparr>]),
             reader := R_loop,
             trace := trace c @ [EvUpdateRegistry, EvDelete ''1a'',
                EvSlotSend 0 \<lparr> resp_msg = Some resp1a, resp_err = None \<rparr>,
                EvHandler (Some resp1a) None] \<rparr>)"
    by simp
  with r c show ?thesis by blast
qed

section \<open>Message ids\<close>

declare hexdigits.simps [simp del]

lemma hexchar_table:
  "list_all (\<lambda>d. hexdigit_val (hexchar d) = d \<and> hexchar d \<noteq> CHR ''-'') [0..<16]"
  by code_simp

lemma hexdigit_val_hexchar: "d < 16 \<Longrightarrow> hexdigit_val (hexchar d) = d"
  using hexchar_table by (simp add: list_all_iff del: upt.simps)

lemma hexchar_not_minus: "d < 16 \<Longrightarrow> hexchar d \<noteq> CHR ''-''"
  using hexchar_table by (simp add: list_all_iff del: upt.simps)

lemma hexval_snoc: "hexval (s @ [ch]) = 16 * hexval s + hexdigit_val ch"
  by (simp add: hexval_def)

lemma hexval_hexdigits: "hexval (hexdigits n) = n"
proof (induction n rule: hexdigits.induct)
  case (1 n)
  show ?case
  proof (cases "n < 16")
    case True
    then show ?thesis
      by (simp add: hexdigits.simps [of n] hexval_def hexdigit_val_hexchar)
  next
    case False
    with "1" have "hexval (hexdigits (n div 16)) = n div 16" by simp
    with False show ?thesis
      by (simp add: hexdigits.simps [of n] hexval_snoc hexdigit_val_hexchar)
  qed
qed

lemma hexdigits_inj: "hexdigits a = hexdigits b \<Longrightarrow> a = b"
  by (metis hexval_hexdigits)

lemma hd_hexdigits: "\<exists>d rest. d < 16 \<and> hexdigits n = hexchar d # rest"
proof (induction n rule: hexdigits.induct)
  case (1 n)
  show ?case
  proof (cases "n < 16")
    case True
    then show ?thesis by (auto simp: hexdigits.simps [of n])
  next
    case False
    with "1" obtain d rest where "d < 16" "hexdigits (n div 16) = hexchar d # rest" by blast
    with False show ?thesis by (auto simp: hexdigits.simps [of n])
  qed
qed

lemma hexdigits_not_minus: "hexdigits n \<noteq> CHR ''-'' # s"
proof
  assume eq: "hexdigits n = CHR ''-'' # s"
  obtain d rest where d: "d < 16" "hexdigits n = hexchar d # rest"
    using hd_hexdigits [of n] by blast
  with eq have "hexchar d = CHR ''-''" by simp
  with hexchar_not_minus [OF d(1)] show False by simp
qed

lemma FormatInt16_inj: "FormatInt16 i = FormatInt16 j \<longleftrightarrow> i = j"
proof
  assume eq: "FormatInt16 i = FormatInt16 j"
  show "i = j"
  proof (cases "i < 0")
    case True
    note i = this
    show ?thesis
    proof (cases "j < 0")
      case True
      with i eq have "nat (- i) = nat (- j)" by (auto simp: FormatInt16_def dest: hexdigits_inj)
      with i True show ?thesis by simp
    next
      case False
      with i eq show ?thesis
        using hexdigits_not_minus [of "nat j" "hexdigits (nat (- i))"]
        by (simp add: FormatInt16_def)
    qed
  next
    case False
    note i = this
    show ?thesis
    proof (cases "j < 0")
      case True
      with i eq show ?thesis
        using hexdigits_not_minus [of "nat i" "hexdigits (nat (- j))"]
        by (simp add: FormatInt16_def)
    next
      case False
      with i eq have "nat i = nat j" by (auto simp: FormatInt16_def dest: hexdigits_inj)
      with i False show ?thesis by simp
    qed
  qed
qed simp

section \<open>Sending on a closed connection\<close>

lemma deferred_recover_no_panic: "deferred_recover r \<noteq> Panic x"
  by (cases r) simp_all

lemma step_closed_inv: "step cfg a c = Some c' \<Longrightarrow> closed_inv c \<Longrightarrow> closed_inv c'"
  by (cases "(cfg, a, c)" rule: step.cases)
     (auto simp: sendMessage_call_def sendMessage_select1_def sendMessage_select2_def
        return_from_def deferred_delete_def delete_def put_def emit_def Let_def Close_def
        wListen_step_def rListen_step_def readWsMessage_def chan_send_def closed_inv_def
      split: sender_pc.splits if_splits option.splits select_case.splits writer_pc.splits
        reader_pc.splits list.splits sum.splits)

lemma step_no_panic: "step cfg a c = Some c' \<Longrightarrow> no_panic c \<Longrightarrow> no_panic c'"
  by (cases "(cfg, a, c)" rule: step.cases)
     (auto simp: sendMessage_call_def sendMessage_select1_def sendMessage_select2_def
        return_from_def deferred_recover_no_panic Let_def no_panic_def
      dest!: wListen_step_senders rListen_step_senders
      simp: Close_senders
      split: sender_pc.splits if_splits option.splits select_case.splits)

lemma run_closed_inv: "run cfg as c = Some c' \<Longrightarrow> closed_inv c \<Longrightarrow> closed_inv c'"
  by (induction as arbitrary: c) (auto split: option.splits dest: step_closed_inv)

lemma run_no_panic: "run cfg as c = Some c' \<Longrightarrow> no_panic c \<Longrightarrow> no_panic c'"
  by (induction as arbitrary: c) (auto split: option.splits dest: step_no_panic)

lemma new_conn_closed_inv: "closed_inv (new_conn t)" and new_conn_no_panic: "no_panic (new_conn t)"
  by (simp_all add: closed_inv_def no_panic_def new_conn_def)

text \<open>
  C4, as the code has it. In a state the connection can reach in which \<^verbatim>\<open>Close\<close> has
  closed the writer inbox, the first select of \<^verbatim>\<open>sendMessage\<close> never blocks, for a call
  with any message type (the three public send functions pass the three types) and also for
  a call that was already waiting to enqueue when the connection closed. When the timer of
  \<^verbatim>\<open>Timeouts.Request\<close> has not fired by the time the select polls (\<open>expired\<close> false), or
  when it has and Go picks the send (\<open>pick\<close> false), the send on the closed inbox panics
  and the call returns from the deferred recover with the error "connection is closed". When
  the timer has fired and Go picks it, the call returns the request-timeout error. In no
  reachable state has a call ended with a panic.
\<close>

theorem send_on_closed:
  assumes "run cfg as (new_conn t) = Some c" and "wch_closed c"
  shows "(senders c tid = S_idle \<longrightarrow>
            run cfg [Sender tid (Call messageType payload now),
                     Sender tid (Select1 expired pick)] c =
              Some (c\<lparr> chans := (chans c)(next_chan c := []), next_chan := Suc (next_chan c),
                       senders := (senders c)(tid := S_done (Normal []
                         (Some (if expired \<and> pick then RequestTimedOut (Timeouts_Request cfg)
                                else ConnectionIsClosed)))) \<rparr>)) \<and>
         (\<forall>m ch. senders c tid = S_select1 m ch \<longrightarrow>
            step cfg (Sender tid (Select1 expired pick)) c =
              Some (c\<lparr> senders := (senders c)(tid := S_done (Normal []
                         (Some (if expired \<and> pick then RequestTimedOut (Timeouts_Request cfg)
                                else ConnectionIsClosed)))) \<rparr>)) \<and>
         (\<forall>i r. senders c i \<noteq> S_done (Panic r))"
proof -
  have "no_panic c" using run_no_panic [OF assms(1) new_conn_no_panic] .
  then have np: "\<forall>i r. senders c i \<noteq> S_done (Panic r)" by (simp add: no_panic_def)
  from assms(2) show ?thesis
    by (simp add: np sendMessage_call_def sendMessage_select1_def select_poll_def return_from_def
        Let_def)
qed

theorem send_on_closed_witness:
  "run cfg0 [CloseCall] (new_conn 0) = Some (Close (new_conn 0)) \<and>
   wch_closed (Close (new_conn 0)) \<and> senders (Close (new_conn 0)) 0 = S_idle \<and>
   run cfg0 [Sender 0 (Call AsyncRequestMessage [1] 26), Sender 0 (Select1 False False)]
       (Close (new_conn 0)) =
     Some ((Close (new_conn 0))\<lparr> chans := (chans (Close (new_conn 0)))(0 := []), next_chan := 1,
        senders := (senders (Close (new_conn 0)))(0 := S_done (Normal [] (Some ConnectionIsClosed))) \<rparr>)"
proof -
  have r: "run cfg0 [CloseCall] (new_conn 0) = Some (Close (new_conn 0))" by simp
  have f: "wch_closed (Close (new_conn 0))" "senders (Close (new_conn 0)) 0 = S_idle"
    "next_chan (Close (new_conn 0)) = 0"
    by (simp_all add: Close_def new_conn_def)
  from send_on_closed [OF r f(1), of 0 AsyncRequestMessage "[1]" 26 False False] f r
  show ?thesis by simp
qed

text \<open>
  C4 fails as it is stated: on a closed connection, the timer of \<^verbatim>\<open>Timeouts.Request\<close>
  having fired when the select polls and Go picking it, the call returns the
  request-timeout error, not "connection is closed"; so does a call that was blocked on a
  full inbox when the connection closed.
\<close>

theorem send_on_closed_counterexample:
  "closed_flag (the (run cfg0 [CloseCall] (new_conn 0))) \<and>
   senders (the (run cfg0 [CloseCall, Sender 0 (Call AsyncRequestMessage [] 26),
       Sender 0 (Select1 True True)] (new_conn 0))) 0 =
     S_done (Normal [] (Some (RequestTimedOut 1000))) \<and>
   step cfg0 (Sender 1 (Select1 False False))
     (the (run cfg0 [Sender 0 (Call AsyncRequestMessage [] 26), Sender 0 (Select1 False False),
        Writer env_ok,
        Sender 2 (Call AsyncRequestMessage [] 27), Sender 2 (Select1 False False),
        Sender 1 (Call AsyncRequestMessage [] 28)] (new_conn 0))) = None \<and>
   senders (the (run cfg0 [Sender 0 (Call AsyncRequestMessage [] 26), Sender 0 (Select1 False False),
        Writer env_ok,
        Sender 2 (Call AsyncRequestMessage [] 27), Sender 2 (Select1 False False),
        Sender 1 (Call AsyncRequestMessage [] 28), CloseCall,
        Sender 1 (Select1 True True)] (new_conn 0))) 1 =
     S_done (Normal [] (Some (RequestTimedOut 1000)))"
  by (simp add: engine_defs cfg0_def env_ok_def hex26 FormatInt16_def hexchar_def
      hexdigits.simps)

section \<open>Waiting for the response\<close>

text \<open>
  C1, as the code has it. A synchronous call has enqueued its frame and waits on its
  response channel. While the channel is empty and the deadline \<^verbatim>\<open>Timeouts.Response\<close>
  has not expired, the call stays blocked. When the deadline expires with the channel still
  empty (the reader has delivered no Response and the writer no error), the call returns
  the response-timeout error, and its deferred delete has just removed the entry of its
  message id from the pending table, which is otherwise unchanged. When the channel holds
  an answer before the deadline, the call returns that answer (the payload of the Response,
  or the error of the writer), after the same delete.
\<close>

theorem send_sync_timeout:
  assumes "senders c tid = S_select2 m ch" and "MessageType m = SyncRequestMessage"
  shows "(chans c ch = [] \<longrightarrow>
            step cfg (Sender tid (Select2 False pick)) c = None \<and>
            step cfg (Sender tid (Select2 True pick)) c = Some
              (c\<lparr> msgChans := (msgChans c)(MessageId m := None),
                  senders := (senders c)
                    (tid := S_done (Normal [] (Some (ResponseTimedOut (Timeouts_Response cfg))))),
                  trace := trace c @ [EvDelete (MessageId m)] \<rparr>)) \<and>
         (\<forall>r. chans c ch = [r] \<longrightarrow>
            step cfg (Sender tid (Select2 False pick)) c = Some
              (c\<lparr> msgChans := (msgChans c)(MessageId m := None),
                  chans := (chans c)(ch := []),
                  senders := (senders c)
                    (tid := S_done (Normal (case resp_msg r of Some rm \<Rightarrow> Payload rm | None \<Rightarrow> [])
                                          (resp_err r))),
                  trace := trace c @ [EvDelete (MessageId m)] \<rparr>))"
  using assms
  by (simp add: sendMessage_select2_def select_poll_def return_from_def deferred_delete_def
      delete_def emit_def)

theorem send_sync_timeout_witness:
  "senders ((new_conn 0)\<lparr> senders := (\<lambda>_. S_idle)(0 := S_select2 sync1a 0),
              msgChans := [''1a'' \<mapsto> 0] \<rparr>) 0 = S_select2 sync1a 0 \<and>
   MessageType sync1a = SyncRequestMessage \<and>
   chans ((new_conn 0)\<lparr> senders := (\<lambda>_. S_idle)(0 := S_select2 sync1a 0),
              msgChans := [''1a'' \<mapsto> 0] \<rparr>) 0 = [] \<and>
   step cfg0 (Sender 0 (Select2 True False))
      ((new_conn 0)\<lparr> senders := (\<lambda>_. S_idle)(0 := S_select2 sync1a 0),
              msgChans := [''1a'' \<mapsto> 0] \<rparr>) = Some
      ((new_conn 0)\<lparr> msgChans := Map.empty,
          senders := (\<lambda>_. S_idle)(0 := S_done (Normal [] (Some (ResponseTimedOut 100)))),
          trace := [EvDelete ''1a''] \<rparr>)"
  using send_sync_timeout [of "(new_conn 0)\<lparr> senders := (\<lambda>_. S_idle)(0 := S_select2 sync1a 0),
              msgChans := [''1a'' \<mapsto> 0] \<rparr>" 0 sync1a 0 cfg0 False]
  by (simp add: new_conn_def sync1a_def cfg0_def)

text \<open>
  C1 fails as it is stated, in two ways. First run: the call times out while the writer, which has
  taken the request from the inbox, is still transmitting; the writer then succeeds and
  puts the entry that nobody removes: the call has returned the timeout error, the table
  was empty before the call, no Response was delivered, and the table holds the id.
  Second run: the transmission fails, the writer sends the error on the response channel,
  and the call returns that error, not the timeout.
\<close>

theorem send_sync_timeout_counterexample:
  "senders (the (run cfg0 [Sender 0 (Call SyncRequestMessage [] 26), Sender 0 (Select1 False False),
       Writer env_ok, Sender 0 (Select2 True False), Writer env_ok, Writer env_ok] (new_conn 0))) 0
     = S_done (Normal [] (Some (ResponseTimedOut 100))) \<and>
   msgChans (the (run cfg0 [Sender 0 (Call SyncRequestMessage [] 26), Sender 0 (Select1 False False),
       Writer env_ok, Sender 0 (Select2 True False), Writer env_ok, Writer env_ok] (new_conn 0))) ''1a''
     = Some 0 \<and>
   senders (the (run cfg0 [Sender 0 (Call SyncRequestMessage [] 26), Sender 0 (Select1 False False),
       Writer env_ok, Writer env_broken, Writer env_ok, Sender 0 (Select2 False False)] (new_conn 0))) 0
     = S_done (Normal [] (Some (WebsocketError ''broken pipe'')))"
  by (simp add: engine_defs cfg0_def env_ok_def env_broken_def hex26)

section \<open>What an asynchronous call waits for\<close>

text \<open>
  C7, as the code has it. In a state the connection can reach, a call with a message type
  other than the synchronous request (\<^verbatim>\<open>SendAsyncRequest\<close>, \<^verbatim>\<open>SendResponse\<close>)
  has enqueued its frame, which is the next one the writer takes. The call does not return
  then: it waits on its response channel (blocked while the channel is empty and the
  deadline has not expired). Once the writer has transmitted the frame and answered, the
  call returns the outcome of that transmission: no error after a successful write, the
  write's error otherwise. If the deadline \<^verbatim>\<open>Timeouts.Request\<close> expires first, it
  returns the timeout error of line 178.
\<close>

theorem send_async_waits_for_write:
  assumes "run cfg as (new_conn t) = Some c"
    and "senders c tid = S_select2 m ch" and "MessageType m \<noteq> SyncRequestMessage"
    and "writer c = W_recv" and "wch c = \<lparr> req_msg = m, respCh = ch \<rparr> # rest"
  shows "step cfg (Sender tid (Select2 False pick)) c = None \<and>
         map_option (\<lambda>c'. senders c' tid)
           (run cfg [Writer e0, Writer env, Writer e2, Sender tid (Select2 False pick)] c) =
             Some (S_done (Normal [] (sendWsMessage env m))) \<and>
         map_option (\<lambda>c'. senders c' tid) (step cfg (Sender tid (Select2 True pick)) c) =
             Some (S_done (Normal [] (Some (ResponseTimedOut (Timeouts_Request cfg)))))"
proof -
  have "slots_inv c" using run_slots_inv [OF assms(1) new_conn_slots_inv] .
  then have "chans c (respCh \<lparr> req_msg = m, respCh = ch \<rparr>) = []"
    using assms(5) by (intro slots_inv_inbox_empty) simp_all
  then have "chans c ch = []" by simp
  with assms(2-) show ?thesis
    by (cases "sendWsMessage env m")
       (simp_all add: sendMessage_select2_def select_poll_def return_from_def deferred_delete_def
          wListen_step_def chan_send_def emit_def)
qed

theorem send_async_waits_for_write_witness:
  "\<exists>c. run cfg0 [Sender 0 (Call AsyncRequestMessage [] 26), Sender 0 (Select1 False False)]
            (new_conn 0) = Some c \<and>
       senders c 0 = S_select2 async1a 0 \<and> writer c = W_recv \<and>
       wch c = [\<lparr> req_msg = async1a, respCh = 0 \<rparr>] \<and>
       step cfg0 (Sender 0 (Select2 False False)) c = None \<and>
       map_option (\<lambda>c'. senders c' 0)
         (run cfg0 [Writer env_ok, Writer env_broken, Writer env_ok,
                    Sender 0 (Select2 False False)] c) =
         Some (S_done (Normal [] (Some (WebsocketError ''broken pipe''))))"
proof -
  obtain c where r: "run cfg0 [Sender 0 (Call AsyncRequestMessage [] 26),
        Sender 0 (Select1 False False)] (new_conn 0) = Some c"
    and h: "senders c 0 = S_select2 async1a 0" "MessageType async1a \<noteq> SyncRequestMessage"
      "writer c = W_recv" "wch c = \<lparr> req_msg = async1a, respCh = 0 \<rparr> # []"
    by (simp add: engine_defs cfg0_def hex26 async1a_def)
  have e: "sendWsMessage env_broken async1a = Some (WebsocketError ''broken pipe'')"
    by (simp add: sendWsMessage_def env_broken_def async1a_def)
  from send_async_waits_for_write [OF r h, of False env_ok env_broken env_ok] e
  have "step cfg0 (Sender 0 (Select2 False False)) c = None"
    and "map_option (\<lambda>c'. senders c' 0)
         (run cfg0 [Writer env_ok, Writer env_broken, Writer env_ok,
                    Sender 0 (Select2 False False)] c) =
         Some (S_done (Normal [] (Some (WebsocketError ''broken pipe''))))"
    by simp_all
  with r h show ?thesis by auto
qed

text \<open>
  C7 fails as it is stated: with the frame in the inbox the call has not returned, and the
  error it returns in the end is the error of the transport write that follows.
\<close>

theorem send_async_counterexample:
  "senders (the (run cfg0 [Sender 0 (Call AsyncRequestMessage [] 26),
       Sender 0 (Select1 False False)] (new_conn 0))) 0 = S_select2 async1a 0 \<and>
   senders (the (run cfg0 [Sender 0 (Call AsyncRequestMessage [] 26),
       Sender 0 (Select1 False False), Writer env_ok, Writer env_ok, Writer env_ok,
       Sender 0 (Select2 False False)] (new_conn 0))) 0 = S_done (Normal [] None) \<and>
   senders (the (run cfg0 [Sender 0 (Call AsyncRequestMessage [] 26),
       Sender 0 (Select1 False False), Writer env_ok, Writer env_broken, Writer env_ok,
       Sender 0 (Select2 False False)] (new_conn 0))) 0 =
     S_done (Normal [] (Some (WebsocketError ''broken pipe'')))"
  by (simp add: engine_defs cfg0_def env_ok_def env_broken_def hex26 async1a_def)

section \<open>Message ids of two calls\<close>

text \<open>
  C8, as the code has it. The id of a request is the hexadecimal rendering of the clock
  reading \<^verbatim>\<open>time.Now().UnixNano()\<close> of its call, and nothing else: two synchronous
  calls on one connection get distinct ids exactly when they read distinct clock values.
\<close>

theorem msgId_distinct_iff_clock:
  assumes "i \<noteq> j" and "senders c i = S_idle" and "senders c j = S_idle"
  shows "map_option (\<lambda>c'. (senders c' i, senders c' j))
           (run cfg [Sender i (Call SyncRequestMessage p1 t1),
                     Sender j (Call SyncRequestMessage p2 t2)] c) =
         Some (S_select1 \<lparr> MessageType = SyncRequestMessage, MessageId = FormatInt16 t1,
                            Payload = p1 \<rparr> (next_chan c),
               S_select1 \<lparr> MessageType = SyncRequestMessage, MessageId = FormatInt16 t2,
                            Payload = p2 \<rparr> (Suc (next_chan c))) \<and>
         (FormatInt16 t1 = FormatInt16 t2 \<longleftrightarrow> t1 = t2)"
  using assms by (simp add: sendMessage_call_def Let_def FormatInt16_inj)

theorem msgId_distinct_iff_clock_witness:
  "(0::nat) \<noteq> 1 \<and> senders (new_conn 0) 0 = S_idle \<and> senders (new_conn 0) 1 = S_idle \<and>
   map_option (\<lambda>c'. (senders c' 0, senders c' 1))
           (run cfg0 [Sender 0 (Call SyncRequestMessage [] 26),
                     Sender 1 (Call SyncRequestMessage [] 27)] (new_conn 0)) =
         Some (S_select1 \<lparr> MessageType = SyncRequestMessage, MessageId = FormatInt16 26,
                            Payload = [] \<rparr> 0,
               S_select1 \<lparr> MessageType = SyncRequestMessage, MessageId = FormatInt16 27,
                            Payload = [] \<rparr> 1) \<and>
   FormatInt16 26 \<noteq> FormatInt16 27"
  using msgId_distinct_iff_clock [of 0 1 "new_conn 0" cfg0 "[]" 26 "[]" 27]
  by (simp add: new_conn_def)

text \<open>
  C8 fails as it is stated: two calls that read the same clock value are both waiting for
  their responses with the same message id.
\<close>

theorem msgId_distinct_counterexample:
  "senders (the (run cfg0 [Sender 0 (Call SyncRequestMessage [] 26),
       Sender 1 (Call SyncRequestMessage [1] 26), Sender 0 (Select1 False False), Writer env_ok,
       Sender 1 (Select1 False False)] (new_conn 0))) 0 =
     S_select2 \<lparr> MessageType = SyncRequestMessage, MessageId = ''1a'', Payload = [] \<rparr> 0 \<and>
   senders (the (run cfg0 [Sender 0 (Call SyncRequestMessage [] 26),
       Sender 1 (Call SyncRequestMessage [1] 26), Sender 0 (Select1 False False), Writer env_ok,
       Sender 1 (Select1 False False)] (new_conn 0))) 1 =
     S_select2 \<lparr> MessageType = SyncRequestMessage, MessageId = ''1a'', Payload = [1] \<rparr> 1"
  by (simp add: engine_defs cfg0_def env_ok_def hex26)

section \<open>Routing by the hash of the identifier\<close>

lemma shard_index:
  assumes "0 < n" and "n < 2 ^ 32"
  shows "(word_of_nat n :: 32 word) \<noteq> 0"
    and "unat (h mod (word_of_nat n :: 32 word)) = unat h mod n"
proof -
  have u: "unat (word_of_nat n :: 32 word) = n"
    using assms(2) by (simp add: unat_of_nat)
  show "(word_of_nat n :: 32 word) \<noteq> 0"
    using u assms(1) by (metis unat_0 less_numeral_extra(3))
  show "unat (h mod (word_of_nat n :: 32 word)) = unat h mod n"
    by (simp add: unat_mod_distrib u)
qed

lemma length_newConnection [simp]:
  "length (shards (fst (newConnection hash32 ident conn e wscm))) = length (shards wscm)"
  by (simp add: newConnection_def Let_def shard_register_def split: option.splits)

lemma length_manager_step [simp]:
  "length (shards (manager_step hash32 op wscm)) = length (shards wscm)"
  by (cases op) (simp_all add: Let_def wscm_close_def)

lemma length_manager_run [simp]:
  "length (shards (manager_run hash32 ops wscm)) = length (shards wscm)"
  unfolding manager_run_def by (induction ops arbitrary: wscm rule: rev_induct) simp_all

lemma shards_inv_update:
  assumes "shards_inv hash32 wscm" and "i < length (shards wscm)"
    and "\<And>ident conn. wsconns s ident = Some conn \<Longrightarrow>
           i = unat (hash32 ident) mod length (shards wscm)"
  shows "shards_inv hash32 (wscm\<lparr> shards := (shards wscm)[i := s] \<rparr>)"
  unfolding shards_inv_def
proof (intro allI impI)
  fix k ident conn
  assume a: "k < length (shards (wscm\<lparr>shards := (shards wscm)[i := s]\<rparr>)) \<and>
       wsconns (shards (wscm\<lparr>shards := (shards wscm)[i := s]\<rparr>) ! k) ident = Some conn"
  show "k = unat (hash32 ident) mod length (shards (wscm\<lparr>shards := (shards wscm)[i := s]\<rparr>))"
  proof (cases "k = i")
    case True
    with a assms(2) have "wsconns s ident = Some conn" by simp
    from assms(3) [OF this] True show ?thesis by simp
  next
    case False
    with a have "k < length (shards wscm)" "wsconns (shards wscm ! k) ident = Some conn" by simp_all
    with assms(1) show ?thesis unfolding shards_inv_def by simp
  qed
qed

lemma shards_inv_entry:
  "shards_inv hash32 wscm \<Longrightarrow> k < length (shards wscm) \<Longrightarrow>
     wsconns (shards wscm ! k) ident = Some conn \<Longrightarrow>
     k = unat (hash32 ident) mod length (shards wscm)"
  unfolding shards_inv_def by blast

lemma shards_inv_newConnection:
  assumes "shards_inv hash32 wscm" and "0 < length (shards wscm)" and "length (shards wscm) < 2 ^ 32"
  shows "shards_inv hash32 (fst (newConnection hash32 ident conn e wscm))"
proof -
  let ?i = "unat (hash32 ident) mod length (shards wscm)"
  have i: "?i < length (shards wscm)" using assms(2) by simp
  note idx = shard_index [OF assms(2,3)]
  show ?thesis
  proof (cases "wscm_closed wscm")
    case True
    with assms(1) show ?thesis by (simp add: newConnection_def)
  next
    case False
    show ?thesis
    proof (cases e)
      case None
      have "shards_inv hash32 (wscm\<lparr> shards := (shards wscm)
              [?i := (shards wscm ! ?i)\<lparr> wsconns := (wsconns (shards wscm ! ?i))(ident \<mapsto> conn) \<rparr>] \<rparr>)"
        using assms(1) i
        by (rule shards_inv_update) (auto split: if_splits dest: shards_inv_entry [OF assms(1) i])
      with False None show ?thesis
        by (simp add: newConnection_def Let_def idx shard_register_def)
    next
      case (Some msg)
      have "shards_inv hash32 (wscm\<lparr> shards := (shards wscm)
              [?i := (shards wscm ! ?i)\<lparr> wsconns := (wsconns (shards wscm ! ?i))(ident := None) \<rparr>] \<rparr>)"
        using assms(1) i
        by (rule shards_inv_update) (auto split: if_splits dest: shards_inv_entry [OF assms(1) i])
      with False Some show ?thesis
        by (simp add: newConnection_def Let_def idx shard_register_def shard_unregister_def)
    qed
  qed
qed

lemma shards_inv_step:
  assumes "shards_inv hash32 wscm" and "0 < length (shards wscm)" and "length (shards wscm) < 2 ^ 32"
  shows "shards_inv hash32 (manager_step hash32 op wscm)"
proof (cases op)
  case (NewConnection ident conn e)
  then show ?thesis using shards_inv_newConnection [OF assms] by simp
next
  case (ConnClose ident conn)
  let ?i = "unat (hash32 ident) mod length (shards wscm)"
  have i: "?i < length (shards wscm)" using assms(2) by simp
  note idx = shard_index [OF assms(2,3)]
  have "shards_inv hash32 (wscm\<lparr> shards := (shards wscm)
          [?i := shard_unregister conn ident (shards wscm ! ?i)] \<rparr>)"
    using assms(1) i
    by (rule shards_inv_update)
       (auto simp: shard_unregister_def split: if_splits dest: shards_inv_entry [OF assms(1) i])
  with ConnClose show ?thesis by (simp add: Let_def idx)
next
  case ManagerClose
  then show ?thesis by (auto simp: shards_inv_def wscm_close_def shard_Close_def)
qed

lemma shards_inv_run:
  assumes "shards_inv hash32 wscm" and "0 < length (shards wscm)" and "length (shards wscm) < 2 ^ 32"
  shows "shards_inv hash32 (manager_run hash32 ops wscm)"
proof (induction ops rule: rev_induct)
  case Nil
  show ?case using assms(1) by (simp add: manager_run_def)
next
  case (snoc op ops)
  have "shards_inv hash32 (manager_step hash32 op (manager_run hash32 ops wscm))"
    using snoc assms(2,3) by (intro shards_inv_step) simp_all
  then show ?case by (simp add: manager_run_def)
qed

lemma shards_inv_new: "shards_inv hash32 (newWebSocketConnectionManager n)"
  by (auto simp: shards_inv_def newWebSocketConnectionManager_def)

text \<open>
  C6. In every state a manager with \<open>n\<close> shards (\<open>0 < n < 2\<^sup>3\<^sup>2\<close>) can reach by
  making and closing connections and by closing itself: \<^verbatim>\<open>findConnection\<close> looks the
  identifier up in the shard of index \<open>hash32 ident mod n\<close>; \<^verbatim>\<open>newConnection\<close>, when
  the manager is open and the registry accepts, registers the connection in that same
  shard, and a \<^verbatim>\<open>findConnection\<close> of the identifier then finds it; and whichever shard
  holds a connection under an identifier is the shard of that index, so no other shard
  leads to it.
\<close>

theorem same_shard:
  assumes "wscm = manager_run hash32 ops (newWebSocketConnectionManager n)"
    and "0 < n" and "n < 2 ^ 32"
  shows "findConnection hash32 ident wscm =
           Inr (wsconns (shards wscm ! (unat (hash32 ident) mod n)) ident) \<and>
         (\<not> wscm_closed wscm \<longrightarrow>
            newConnection hash32 ident conn None wscm =
              (wscm\<lparr> shards := (shards wscm)[unat (hash32 ident) mod n :=
                  (shards wscm ! (unat (hash32 ident) mod n))
                    \<lparr> wsconns := (wsconns (shards wscm ! (unat (hash32 ident) mod n)))
                                   (ident \<mapsto> conn) \<rparr>] \<rparr>,
               Inr conn) \<and>
            findConnection hash32 ident (fst (newConnection hash32 ident conn None wscm)) =
              Inr (Some conn)) \<and>
         (\<forall>k c'. k < n \<and> wsconns (shards wscm ! k) ident = Some c'
            \<longrightarrow> k = unat (hash32 ident) mod n)"
proof -
  have len: "length (shards wscm) = n"
    by (simp add: assms(1) newWebSocketConnectionManager_def)
  note idx = shard_index [OF assms(2,3)]
  have inv: "shards_inv hash32 wscm"
    unfolding assms(1)
    using assms(2,3)
    by (intro shards_inv_run [OF shards_inv_new])
       (simp_all add: newWebSocketConnectionManager_def)
  have i: "unat (hash32 ident) mod n < n" using assms(2) by simp
  have f: "findConnection hash32 ident wscm =
           Inr (wsconns (shards wscm ! (unat (hash32 ident) mod n)) ident)"
    by (simp add: findConnection_def Let_def len idx shard_findConnection_def)
  have r: "\<not> wscm_closed wscm \<Longrightarrow> newConnection hash32 ident conn None wscm =
              (wscm\<lparr> shards := (shards wscm)[unat (hash32 ident) mod n :=
                  (shards wscm ! (unat (hash32 ident) mod n))
                    \<lparr> wsconns := (wsconns (shards wscm ! (unat (hash32 ident) mod n)))
                                   (ident \<mapsto> conn) \<rparr>] \<rparr>,
               Inr conn)"
    by (simp add: newConnection_def Let_def len idx shard_register_def)
  have g: "\<not> wscm_closed wscm \<Longrightarrow>
      findConnection hash32 ident (fst (newConnection hash32 ident conn None wscm)) = Inr (Some conn)"
    using i by (simp add: r findConnection_def Let_def len idx shard_findConnection_def)
  have u: "\<forall>k c'. k < n \<and> wsconns (shards wscm ! k) ident = Some c'
            \<longrightarrow> k = unat (hash32 ident) mod n"
    using inv len unfolding shards_inv_def by blast
  show ?thesis using f r g u by blast
qed

theorem same_shard_witness:
  "(0::nat) < 4 \<and> (4::nat) < 2 ^ 32 \<and>
   \<not> wscm_closed (manager_run hash_len [NewConnection ''dev-1'' 7 None]
         (newWebSocketConnectionManager 4)) \<and>
   findConnection hash_len ''ab'' (fst (newConnection hash_len ''ab'' 8 None
       (manager_run hash_len [NewConnection ''dev-1'' 7 None]
         (newWebSocketConnectionManager 4)))) = Inr (Some 8)"
proof -
  let ?w = "manager_run hash_len [NewConnection ''dev-1'' 7 None] (newWebSocketConnectionManager 4)"
  have n: "(0::nat) < 4" "(4::nat) < 2 ^ 32" by simp_all
  have w: "\<not> wscm_closed ?w"
    by (simp add: manager_run_def newConnection_def newWebSocketConnectionManager_def
        shard_register_def Let_def)
  from same_shard [where wscm = ?w and ?hash32.0 = hash_len
      and ops = "[NewConnection ''dev-1'' 7 None]" and n = 4 and ident = "''ab''" and conn = 8,
      OF refl n] w
  have "findConnection hash_len ''ab'' (fst (newConnection hash_len ''ab'' 8 None ?w)) = Inr (Some 8)"
    by blast
  with w show ?thesis by simp
qed

section \<open>The keys of the status snapshot\<close>

lemma set_if_apply: "set_if b k0 v j k = (if b \<and> k = k0 then Some v else j k)"
  by (simp add: set_if_def)

lemma MarshalJSON_apply:
  "ConnectionStatus_MarshalJSON h k =
     (if Histories h \<noteq> [] \<and> k = ''connection_history'' then Some (JHistories (Histories h))
      else case Metadata h k of
        Some v \<Rightarrow> Some (JString v)
      | None \<Rightarrow>
         (if 0 < length (Identifier h) \<and> k = ''device_id'' then Some (JString (Identifier h))
          else if \<not> IsZero (LastPingedAt h) \<and> k = ''last_pinged_at''
            then Some (JInt (NanoToMilli (UnixNano (LastPingedAt h))))
          else if 0 < Duration h \<and> k = ''duration''
            then Some (JInt (NanoToMilli (Duration h)))
          else if 0 < length (ConnectionType h) \<and> k = ''connection_type''
            then Some (JString (ConnectionType h))
          else if \<not> IsZero (DisconnectedAt h) \<and> k = ''disconnected_at''
            then Some (JInt (NanoToMilli (UnixNano (DisconnectedAt h))))
          else if \<not> IsZero (ConnectedAt h) \<and> k = ''connected_at''
            then Some (JInt (NanoToMilli (UnixNano (ConnectedAt h))))
          else if 0 < length (Status h) \<and> k = ''status'' then Some (JString (Status h))
          else if 0 < length (ChannelName h) \<and> k = ''channel_name''
            then Some (JString (ChannelName h))
          else None))"
proof -
  have m: "(if Metadata h \<noteq> Map.empty then j ++ (map_option JString \<circ> Metadata h) else j) =
      j ++ (map_option JString \<circ> Metadata h)" for j :: "string \<rightharpoonup> jvalue"
    by auto
  show ?thesis
  proof (cases "Metadata h k")
    case None
    then show ?thesis
      unfolding ConnectionStatus_MarshalJSON_def Let_def m set_if_apply
      by (simp add: map_add_def split del: if_split cong: if_cong)
  next
    case (Some v)
    then show ?thesis
      unfolding ConnectionStatus_MarshalJSON_def Let_def m set_if_apply
      by (simp add: map_add_def split del: if_split cong: if_cong)
  qed
qed

lemma MarshalJSON_no_metadata:
  assumes "Metadata h k = None"
  shows "ConnectionStatus_MarshalJSON h k = status_entry h k"
proof -
  consider "k = ''channel_name''" | "k = ''status''" | "k = ''connected_at''"
    | "k = ''disconnected_at''" | "k = ''connection_type''" | "k = ''duration''"
    | "k = ''last_pinged_at''" | "k = ''device_id''" | "k = ''connection_history''"
    | "k \<noteq> ''channel_name''" "k \<noteq> ''status''" "k \<noteq> ''connected_at''"
      "k \<noteq> ''disconnected_at''" "k \<noteq> ''connection_type''" "k \<noteq> ''duration''"
      "k \<noteq> ''last_pinged_at''" "k \<noteq> ''device_id''" "k \<noteq> ''connection_history''"
    by blast
  then show ?thesis
  proof cases
    case 1 with assms show ?thesis by (simp add: MarshalJSON_apply status_entry_def)
  next
    case 2 with assms show ?thesis by (simp add: MarshalJSON_apply status_entry_def)
  next
    case 3 with assms show ?thesis by (simp add: MarshalJSON_apply status_entry_def)
  next
    case 4 with assms show ?thesis by (simp add: MarshalJSON_apply status_entry_def)
  next
    case 5 with assms show ?thesis by (simp add: MarshalJSON_apply status_entry_def)
  next
    case 6 with assms show ?thesis by (simp add: MarshalJSON_apply status_entry_def)
  next
    case 7 with assms show ?thesis by (simp add: MarshalJSON_apply status_entry_def)
  next
    case 8 with assms show ?thesis by (simp add: MarshalJSON_apply status_entry_def)
  next
    case 9 with assms show ?thesis by (simp add: MarshalJSON_apply status_entry_def)
  next
    case 10 with assms show ?thesis by (simp add: MarshalJSON_apply status_entry_def)
  qed
qed

text \<open>
  C9, as the code has it. Under a key that the metadata does not use, the map holds what the
  specification says: the key is there iff its field is not zero (a string not empty, a
  time not the zero time, a duration above zero, a history not empty), and times and
  durations are in milliseconds. A key of the metadata is at top level with the metadata's
  string, in the place of the entry a field of the same name would have; only
  \<^verbatim>\<open>connection_history\<close>, written last, takes the place of a metadata entry.
\<close>

theorem MarshalJSON_keys:
  "(\<forall>k. Metadata h k = None \<longrightarrow> ConnectionStatus_MarshalJSON h k = status_entry h k) \<and>
         (\<forall>k v. Metadata h k = Some v \<longrightarrow>
            ConnectionStatus_MarshalJSON h k =
              (if k = ''connection_history'' \<and> Histories h \<noteq> [] then Some (JHistories (Histories h))
               else Some (JString v)))"
  using MarshalJSON_no_metadata [of h] by (auto simp: MarshalJSON_apply)

theorem MarshalJSON_keys_witness:
  "ConnectionStatus_MarshalJSON (zero_status\<lparr> Status := ''online'', Duration := 1500000,
        Metadata := [''fw'' \<mapsto> ''1.2''] \<rparr>) ''status'' = Some (JString ''online'') \<and>
   ConnectionStatus_MarshalJSON (zero_status\<lparr> Status := ''online'', Duration := 1500000,
        Metadata := [''fw'' \<mapsto> ''1.2''] \<rparr>) ''duration'' = Some (JInt 1) \<and>
   ConnectionStatus_MarshalJSON (zero_status\<lparr> Status := ''online'', Duration := 1500000,
        Metadata := [''fw'' \<mapsto> ''1.2''] \<rparr>) ''channel_name'' = None \<and>
   ConnectionStatus_MarshalJSON (zero_status\<lparr> Status := ''online'', Duration := 1500000,
        Metadata := [''fw'' \<mapsto> ''1.2''] \<rparr>) ''fw'' = Some (JString ''1.2'')"
proof -
  let ?h = "zero_status\<lparr> Status := ''online'', Duration := 1500000,
        Metadata := [''fw'' \<mapsto> ''1.2''] \<rparr>"
  have m: "Metadata ?h ''status'' = None" "Metadata ?h ''duration'' = None"
    "Metadata ?h ''channel_name'' = None" "Metadata ?h ''fw'' = Some ''1.2''"
    by simp_all
  from MarshalJSON_keys [of ?h] m
  have "ConnectionStatus_MarshalJSON ?h ''status'' = status_entry ?h ''status''"
    "ConnectionStatus_MarshalJSON ?h ''duration'' = status_entry ?h ''duration''"
    "ConnectionStatus_MarshalJSON ?h ''channel_name'' = status_entry ?h ''channel_name''"
    "ConnectionStatus_MarshalJSON ?h ''fw'' = Some (JString ''1.2'')"
    by (blast, blast, blast, simp)
  then show ?thesis
    by (simp add: status_entry_def zero_status_def NanoToMilli_def)
qed

text \<open>
  C9 fails as it is stated where a key of the metadata is the name of a field: the snapshot has the
  key \<^verbatim>\<open>status\<close> although the field is empty, and under \<^verbatim>\<open>connected_at\<close> it has
  the metadata's string, not the milliseconds of the time that is set.
\<close>

theorem MarshalJSON_keys_counterexample:
  "Status (zero_status\<lparr> Metadata := [''status'' \<mapsto> ''up''] \<rparr>) = [] \<and>
   ConnectionStatus_MarshalJSON (zero_status\<lparr> Metadata := [''status'' \<mapsto> ''up''] \<rparr>) ''status''
     = Some (JString ''up'') \<and>
   \<not> IsZero (ConnectedAt (zero_status\<lparr> ConnectedAt := time_Unix 1 0,
        Metadata := [''connected_at'' \<mapsto> ''noon''] \<rparr>)) \<and>
   ConnectionStatus_MarshalJSON (zero_status\<lparr> ConnectedAt := time_Unix 1 0,
        Metadata := [''connected_at'' \<mapsto> ''noon''] \<rparr>) ''connected_at''
     = Some (JString ''noon'')"
  by (simp add: MarshalJSON_apply zero_status_def time_Unix_def IsZero_def)

section \<open>Decoding a history record\<close>

lemma field_None: "field j k assert upd h = None \<longleftrightarrow> (\<exists>x. j k = Some x \<and> assert x = None)"
  by (auto simp: field_def split: option.splits)

lemma bind_field_None:
  assumes "\<And>h'. (f h' = None) = P"
  shows "(Option.bind (field j k assert upd h) f = None) =
           ((\<exists>x. j k = Some x \<and> assert x = None) \<or> P)"
proof (cases "field j k assert upd h")
  case None
  then have "\<exists>x. j k = Some x \<and> assert x = None"
    using field_None [of j k assert upd h] by simp
  with None show ?thesis by simp
next
  case (Some h')
  then have n: "(\<exists>x. j k = Some x \<and> assert x = None) = False"
    using field_None [of j k assert upd h] by simp
  show ?thesis unfolding n using Some assms by simp
qed

lemma decode_fields_None:
  "(decode_fields s2s s2n j h = None) =
     ((\<exists>x. j ''ip'' = Some x \<and> assert_string x = None) \<or>
      (\<exists>x. j ''request_id'' = Some x \<and> assert_string x = None) \<or>
      (\<exists>x. j ''connection_type'' = Some x \<and> assert_string x = None) \<or>
      (\<exists>x. j ''activity'' = Some x \<and> assert_string x = None) \<or>
      (\<exists>x. j ''timestamp'' = Some x \<and> assert_float64 x = None) \<or>
      (\<exists>x. j ''duration'' = Some x \<and> assert_float64 x = None))"
  unfolding decode_fields_def
  by (intro bind_field_None field_None [THEN eq_reflection [THEN meta_eq_to_obj_eq]])

text \<open>
  C10. A decoded JSON object in which \<^verbatim>\<open>ip\<close> holds a number makes
  \<^verbatim>\<open>UnmarshalJSON\<close> panic. On a decoded object the function panics exactly when one of
  the four string keys holds a value that is not a string or one of the two number keys a
  value that is not a number, and otherwise returns no error; it returns an error exactly
  when \<^verbatim>\<open>json.Unmarshal\<close> has returned it.
\<close>

theorem UnmarshalJSON_panics:
  "UnmarshalJSON s2s s2n (Inr [''ip'' \<mapsto> JNumber 5]) h = RuntimePanic \<and>
   (UnmarshalJSON s2s s2n (Inr j) h = RuntimePanic \<longleftrightarrow>
      (\<exists>k x. k \<in> {''ip'', ''request_id'', ''connection_type'', ''activity''} \<and>
             j k = Some x \<and> assert_string x = None) \<or>
      (\<exists>k x. k \<in> {''timestamp'', ''duration''} \<and> j k = Some x \<and> assert_float64 x = None)) \<and>
   (UnmarshalJSON s2s s2n d h = Err e \<longleftrightarrow> d = Inl e)"
proof (intro conjI)
  show "UnmarshalJSON s2s s2n (Inr [''ip'' \<mapsto> JNumber 5]) h = RuntimePanic"
    by (simp add: UnmarshalJSON_def decode_fields_def field_def)
next
  have "UnmarshalJSON s2s s2n (Inr j) h = RuntimePanic \<longleftrightarrow> decode_fields s2s s2n j h = None"
    by (simp add: UnmarshalJSON_def split: option.split)
  then show "UnmarshalJSON s2s s2n (Inr j) h = RuntimePanic \<longleftrightarrow>
      (\<exists>k x. k \<in> {''ip'', ''request_id'', ''connection_type'', ''activity''} \<and>
             j k = Some x \<and> assert_string x = None) \<or>
      (\<exists>k x. k \<in> {''timestamp'', ''duration''} \<and> j k = Some x \<and> assert_float64 x = None)"
    unfolding decode_fields_None by blast
next
  show "UnmarshalJSON s2s s2n d h = Err e \<longleftrightarrow> d = Inl e"
    by (cases d) (auto simp: UnmarshalJSON_def split: option.splits)
qed

theorem UnmarshalJSON_panics_witness:
  "UnmarshalJSON (\<lambda>m. m div 1000) (\<lambda>m. (m mod 1000) * 1000000)
      (Inr [''ip'' \<mapsto> JStr ''10.0.0.1'', ''timestamp'' \<mapsto> JStr ''soon'']) zero_history
     = RuntimePanic \<and>
   UnmarshalJSON (\<lambda>m. m div 1000) (\<lambda>m. (m mod 1000) * 1000000)
      (Inl ''unexpected end of JSON input'') zero_history = Err ''unexpected end of JSON input''"
proof -
  have "[''ip'' \<mapsto> JStr ''10.0.0.1'', ''timestamp'' \<mapsto> JStr ''soon''] ''timestamp''
          = Some (JStr ''soon'')"
    and "assert_float64 (JStr ''soon'') = None" and "''timestamp'' \<in> {''timestamp'', ''duration''}"
    by simp_all
  then have "\<exists>k x. k \<in> {''timestamp'', ''duration''} \<and>
      [''ip'' \<mapsto> JStr ''10.0.0.1'', ''timestamp'' \<mapsto> JStr ''soon''] k = Some x \<and>
      assert_float64 x = None"
    by blast
  with UnmarshalJSON_panics [of "\<lambda>m. m div 1000" "\<lambda>m. (m mod 1000) * 1000000" zero_history
      "[''ip'' \<mapsto> JStr ''10.0.0.1'', ''timestamp'' \<mapsto> JStr ''soon'']"
      "Inl ''unexpected end of JSON input''" "''unexpected end of JSON input''"]
  show ?thesis by blast
qed

end
